theory Spec2Isabelle
  imports Main
begin

section \<open>Values that reach the compiled function\<close>

text \<open>
  The runtime values of \<^verbatim>\<open>thunder/common.py\<close>. A tensor carries its metadata and
  its numeric contents (\<open>storage\<close>); the remaining classes are the ones that
  \<^verbatim>\<open>_make_subkey_for\<close> tells apart with \<^verbatim>\<open>isinstance\<close>.
\<close>

datatype device = CPU | CUDA nat | Meta

datatype dtype = Float16 | Float32 | Float64 | Int32 | Int64 | Bool8

record tensor =
  shape :: "nat list"
  device :: device
  dtype :: dtype
  requires_grad :: bool
  storage :: "int list"

text \<open>
  Modelled from the spec: \<^verbatim>\<open>thunder.core.proxies\<close> is imported by \<^verbatim>\<open>common.py\<close> and
  not part of the sources at hand. The spec describes a placeholder as a symbolic
  stand-in that carries a unique name and value metadata; \<^verbatim>\<open>common.py\<close> reads the
  \<^verbatim>\<open>requires_grad\<close> attribute of a \<^verbatim>\<open>TensorProxy\<close>. Whether the class is
  \<^verbatim>\<open>Hashable\<close> is not said; \<open>proxy_hashable\<close> records it, so that both cases are
  covered.
\<close>

record tensorproxy =
  proxy_name :: string
  proxy_requires_grad :: bool
  proxy_hashable :: bool

text \<open>Hashable scalars and objects, and the result of \<^verbatim>\<open>type(x)\<close> on them.\<close>

datatype hashable = PyInt int | PyBool bool | PyNone | PyObject string nat

datatype pytype = TTensor | TStr | TInt | TBool | TNoneType | TClass string

fun type_of :: "hashable \<Rightarrow> pytype" where
  "type_of (PyInt _) = TInt"
| "type_of (PyBool _) = TBool"
| "type_of PyNone = TNoneType"
| "type_of (PyObject c _) = TClass c"

datatype seqkind = PyList | PyTuple

datatype pyval =
    Tensor tensor
  | NDArray "int list"
  | Str string
  | PySequence seqkind "pyval list"
  | Collection "pyval list"
  | Hashable hashable
  | Unhashable nat
  | TensorProxy tensorproxy

text \<open>
  The \<^verbatim>\<open>isinstance\<close> tests of \<^verbatim>\<open>_make_subkey_for\<close>. The classes overlap as in
  Python: a string is a \<^verbatim>\<open>Sequence\<close>, a tensor and a tuple are \<^verbatim>\<open>Hashable\<close>.
\<close>

fun isinstance_Tensor :: "pyval \<Rightarrow> bool" where
  "isinstance_Tensor (Tensor _) = True"
| "isinstance_Tensor _ = False"

fun isinstance_ndarray :: "pyval \<Rightarrow> bool" where
  "isinstance_ndarray (NDArray _) = True"
| "isinstance_ndarray _ = False"

fun isinstance_str :: "pyval \<Rightarrow> bool" where
  "isinstance_str (Str _) = True"
| "isinstance_str _ = False"

fun isinstance_Sequence :: "pyval \<Rightarrow> bool" where
  "isinstance_Sequence (Str _) = True"
| "isinstance_Sequence (PySequence _ _) = True"
| "isinstance_Sequence _ = False"

fun isinstance_Hashable :: "pyval \<Rightarrow> bool" where
  "isinstance_Hashable (Tensor _) = True"
| "isinstance_Hashable (NDArray _) = False"
| "isinstance_Hashable (Str _) = True"
| "isinstance_Hashable (PySequence k _) = (k = PyTuple)"
| "isinstance_Hashable (Collection _) = False"
| "isinstance_Hashable (Hashable _) = True"
| "isinstance_Hashable (Unhashable _) = False"
| "isinstance_Hashable (TensorProxy p) = proxy_hashable p"

text \<open>
  Modelled from the spec: \<^verbatim>\<open>thunder.core.utils.is_collection\<close> is imported by
  \<^verbatim>\<open>common.py\<close> and not part of the sources at hand. The spec's rule table speaks of
  ``any other container type not explicitly handled'': the test holds of the ordered
  sequences and of the remaining containers (dicts, sets).
\<close>

fun is_collection :: "pyval \<Rightarrow> bool" where
  "is_collection (PySequence _ _) = True"
| "is_collection (Collection _) = True"
| "is_collection _ = False"

text \<open>
  Iterating a value (\<^verbatim>\<open>enumerate(x)\<close>): the items of a list or tuple, and for a
  string its one-character strings.
\<close>

fun elements :: "pyval \<Rightarrow> pyval list" where
  "elements (PySequence _ xs) = xs"
| "elements (Str s) = map (\<lambda>c. Str [c]) s"
| "elements (Collection xs) = xs"
| "elements _ = []"

section \<open>Fingerprints\<close>

text \<open>
  The Python objects that occur in the results of \<^verbatim>\<open>_make_subkey_for\<close> and
  \<^verbatim>\<open>_make_cache_key\<close>: class objects, tensor metadata, literals, \<^verbatim>\<open>None\<close>, the
  \<^verbatim>\<open>_key_value_separator\<close> class and tuples of these.
\<close>

datatype pyobj =
    OType pytype
  | OShape "nat list"
  | ODevice device
  | ODtype dtype
  | OBool bool
  | OStr string
  | OHash hashable
  | OProxy tensorproxy
  | ONone
  | OSeparator
  | OTuple "pyobj list"

text \<open>Truth value of an object under \<^verbatim>\<open>not\<close> and \<^verbatim>\<open>and\<close>.\<close>

fun truthy :: "pyobj \<Rightarrow> bool" where
  "truthy ONone = False"
| "truthy (OBool b) = b"
| "truthy (OTuple xs) = (xs \<noteq> [])"
| "truthy (OStr s) = (s \<noteq> [])"
| "truthy _ = True"

definition py_and :: "pyobj \<Rightarrow> pyobj \<Rightarrow> pyobj" where
  "py_and a b = (if truthy a then b else a)"

text \<open>
  \<^verbatim>\<open>_make_subkey_for\<close>, with the tests in the order of the source. The loop over a
  sequence is \<open>sequence_loop\<close>: it carries the index and the preallocated
  \<^verbatim>\<open>key\<close> list, and leaves with \<^verbatim>\<open>(None, False)\<close> at the first item that is not
  hashable, as the source does.
\<close>

function make_subkey_for :: "pyval \<Rightarrow> pyobj \<times> pyobj"
  and sequence_loop :: "pyval list \<Rightarrow> nat \<Rightarrow> pyobj list \<Rightarrow> pyobj \<times> pyobj" where
  "make_subkey_for x =
     (if isinstance_Tensor x then
        (case x of Tensor t \<Rightarrow>
           (OBool True,
            OTuple [OType TTensor, OShape (shape t), ODevice (device t), ODtype (dtype t),
                    OBool (requires_grad t)])
         | _ \<Rightarrow> (OBool False, ONone))
      else if isinstance_ndarray x then (OBool False, ONone)
      else if isinstance_str x then
        (case x of Str s \<Rightarrow> (OBool True, OTuple [OType TStr, OStr s])
         | _ \<Rightarrow> (OBool False, ONone))
      else if isinstance_Sequence x then
        sequence_loop (elements x) 0 (replicate (length (elements x)) ONone)
      else if is_collection x then (OBool False, ONone)
      else if isinstance_Hashable x then
        (case x of Hashable h \<Rightarrow> (OBool True, OTuple [OType (type_of h), OHash h])
         | TensorProxy p \<Rightarrow> (OBool True, OTuple [OType (TClass ''TensorProxy''), OProxy p])
         | _ \<Rightarrow> (OBool False, ONone))
      else (OBool False, ONone))"
| "sequence_loop [] idx key = (OBool True, OTuple key)"
| "sequence_loop (v # vs) idx key =
     (case make_subkey_for v of (is_hashable, subkey) \<Rightarrow>
        if \<not> truthy is_hashable then (ONone, OBool False)
        else sequence_loop vs (idx + 1) (key[idx := subkey]))"
  by pat_completeness auto
termination
proof (relation "measure (\<lambda>a. case a of Inl x \<Rightarrow> 2 * size x
                                 | Inr (vs, idx, key) \<Rightarrow> 2 * size_list size vs + 1)")
  show "wf (measure (\<lambda>a. case a of Inl x \<Rightarrow> 2 * size x
                                 | Inr (vs, idx, key) \<Rightarrow> 2 * size_list size vs + 1))"
    by simp
next
  fix x :: pyval
  assume "\<not> isinstance_Tensor x" "\<not> isinstance_ndarray x" "\<not> isinstance_str x"
    "isinstance_Sequence x"
  then show "(Inr (elements x, 0, replicate (length (elements x)) ONone), Inl x)
        \<in> measure (\<lambda>a. case a of Inl x \<Rightarrow> 2 * size x
                                 | Inr (vs, idx, key) \<Rightarrow> 2 * size_list size vs + 1)"
    by (cases x) simp_all
next
  fix v :: pyval and vs :: "pyval list" and idx :: nat and key :: "pyobj list"
  show "(Inl v, Inr (v # vs, idx, key))
        \<in> measure (\<lambda>a. case a of Inl x \<Rightarrow> 2 * size x
                                 | Inr (vs, idx, key) \<Rightarrow> 2 * size_list size vs + 1)"
    by simp
next
  fix v :: pyval and vs :: "pyval list" and idx :: nat and key :: "pyobj list"
    and is_hashable subkey :: pyobj and p :: "pyobj \<times> pyobj"
  show "(Inr (vs, idx + 1, key[idx := subkey]), Inr (v # vs, idx, key))
        \<in> measure (\<lambda>a. case a of Inl x \<Rightarrow> 2 * size x
                                 | Inr (vs, idx, key) \<Rightarrow> 2 * size_list size vs + 1)"
    by simp
qed


declare make_subkey_for.simps [simp del]

text \<open>
  \<^verbatim>\<open>_make_cache_key\<close>. The two loops write into one preallocated list; the first
  returns \<open>None\<close> when the function has left early with \<^verbatim>\<open>None\<close>.
\<close>

definition kwarg_helper :: "pyval \<Rightarrow> pyval \<Rightarrow> pyobj \<times> pyobj" where
  "kwarg_helper key val =
     (case make_subkey_for key of (is_key_hashable, key_key) \<Rightarrow>
      case make_subkey_for val of (is_value_hashable, value_key) \<Rightarrow>
        (py_and is_key_hashable is_value_hashable, OTuple [key_key, OSeparator, value_key]))"

fun args_loop :: "pyval list \<Rightarrow> nat \<Rightarrow> pyobj list \<Rightarrow> pyobj list option" where
  "args_loop [] idx key = Some key"
| "args_loop (arg # args) idx key =
     (case make_subkey_for arg of (is_hashable, subkey) \<Rightarrow>
        if \<not> truthy is_hashable then None
        else args_loop args (idx + 1) (key[idx := subkey]))"

fun kwargs_loop :: "(string \<times> pyval) list \<Rightarrow> nat \<Rightarrow> nat \<Rightarrow> pyobj list \<Rightarrow> pyobj" where
  "kwargs_loop [] offset idx key = OTuple key"
| "kwargs_loop ((k, v) # items) offset idx key =
     (case kwarg_helper (Str k) v of (is_hashable, subkey) \<Rightarrow>
        if \<not> truthy is_hashable then ONone
        else kwargs_loop items offset (idx + 1) (key[offset + idx := subkey]))"

definition make_cache_key :: "pyval list \<Rightarrow> (string \<times> pyval) list \<Rightarrow> pyobj" where
  "make_cache_key args kwargs =
     (let key = replicate (length args + length kwargs) ONone in
      case args_loop args 0 key of
        None \<Rightarrow> ONone
      | Some key \<Rightarrow> kwargs_loop kwargs (length args) 0 key)"

section \<open>The cache\<close>

text \<open>
  Executables and traces are opaque objects of the compiler; they are identified by a
  number. The cache is a Python \<^verbatim>\<open>dict\<close>: any object can be a key, \<^verbatim>\<open>None\<close>
  included.
\<close>

type_synonym Callable = nat
type_synonym TraceCtx = nat
type_synonym cache = "pyobj \<rightharpoonup> (Callable \<times> TraceCtx list option)"

definition cache_put ::
  "cache \<Rightarrow> Callable \<Rightarrow> TraceCtx list option \<Rightarrow> pyval list \<Rightarrow> (string \<times> pyval) list
   \<Rightarrow> bool \<times> cache" where
  "cache_put cache fn traces args kwargs =
     (let key = make_cache_key args kwargs in
      if key = ONone then (False, cache)
      else (True, cache(key \<mapsto> (fn, traces))))"

definition cache_get ::
  "cache \<Rightarrow> pyval list \<Rightarrow> (string \<times> pyval) list
   \<Rightarrow> Callable option \<times> TraceCtx list option" where
  "cache_get cache args kwargs =
     (let key = make_cache_key args kwargs in
      case cache key of
        None \<Rightarrow> (None, None)
      | Some (fn, traces) \<Rightarrow> (Some fn, traces))"

section \<open>Which values have a fingerprint\<close>

text \<open>
  A value has no fingerprint rule when \<^verbatim>\<open>_make_subkey_for\<close> falls through to
  \<^verbatim>\<open>(False, None)\<close> on it; it is indeterminate when it is such a value or an ordered
  sequence that holds one. \<open>subkey_of\<close> is the sub-key of a determinate value,
  written by recursion on the value.
\<close>

fun no_rule :: "pyval \<Rightarrow> bool" where
  "no_rule x =
     (\<not> isinstance_Tensor x \<and>
      (isinstance_ndarray x \<or>
       (\<not> isinstance_str x \<and> \<not> isinstance_Sequence x \<and>
        (is_collection x \<or> \<not> isinstance_Hashable x))))"

fun indeterminate :: "pyval \<Rightarrow> bool" where
  "indeterminate (PySequence k xs) = (\<exists>x \<in> set xs. indeterminate x)"
| "indeterminate x = no_rule x"

fun subkey_of :: "pyval \<Rightarrow> pyobj" where
  "subkey_of (Tensor t) =
     OTuple [OType TTensor, OShape (shape t), ODevice (device t), ODtype (dtype t),
             OBool (requires_grad t)]"
| "subkey_of (Str s) = OTuple [OType TStr, OStr s]"
| "subkey_of (PySequence k xs) = OTuple (map subkey_of xs)"
| "subkey_of (Hashable h) = OTuple [OType (type_of h), OHash h]"
| "subkey_of (TensorProxy p) = OTuple [OType (TClass ''TensorProxy''), OProxy p]"
| "subkey_of _ = ONone"

fun kwarg_subkey_of :: "string \<times> pyval \<Rightarrow> pyobj" where
  "kwarg_subkey_of (k, v) = OTuple [subkey_of (Str k), OSeparator, subkey_of v]"

definition indeterminate_call :: "pyval list \<Rightarrow> (string \<times> pyval) list \<Rightarrow> bool" where
  "indeterminate_call args kwargs =
     ((\<exists>a \<in> set args. indeterminate a) \<or> (\<exists>kv \<in> set kwargs. indeterminate (snd kv)))"

section \<open>Compile data, statistics and the outside world\<close>

datatype CACHE_MODES = ALWAYS_TRACE | FIXED | DYNAMIC_STRIDES

type_synonym kwargs = "(string \<times> pyval) list"
type_synonym pyfunction = nat
type_synonym langctx = nat

text \<open>\<^verbatim>\<open>CompileStats\<close>: the fields that \<^verbatim>\<open>common.py\<close> reads or writes.\<close>

record CompileStats =
  last_executed :: "Callable option"
  last_traces :: "TraceCtx list option"
  last_trace_host_start :: int
  last_trace_host_stop :: int
  last_trace_cache_start :: int
  last_trace_cache_stop :: int
  last_trace_tracing_start :: int
  last_trace_tracing_stop :: int
  last_trace_host_execution_start :: int
  last_trace_host_execution_stop :: int
  cache :: cache
  calls :: int
  cache_hits :: int
  cache_misses :: int

definition CompileStats_init :: CompileStats where
  "CompileStats_init =
     \<lparr>last_executed = None, last_traces = None,
      last_trace_host_start = -1, last_trace_host_stop = -1,
      last_trace_cache_start = -1, last_trace_cache_stop = -1,
      last_trace_tracing_start = -1, last_trace_tracing_stop = -1,
      last_trace_host_execution_start = -1, last_trace_host_execution_stop = -1,
      cache = Map.empty, calls = 0, cache_hits = 0, cache_misses = 0\<rparr>"

text \<open>\<^verbatim>\<open>CompileData\<close>: the configuration that the dispatcher consults.\<close>

record CompileData =
  cache_mode :: CACHE_MODES
  langctx :: "langctx option"
  executors_list :: "nat list option"
  only_execute_prims :: bool
  use_rematerialization :: bool
  use_cudagraphs :: bool
  disable_torch_autograd_support :: bool
  num_constant_args :: nat
  processed_function :: pyfunction

datatype exn =
    NotImplementedError string
  | AssertionError string
  | ValueError
  | TypeError
  | AttributeError string
  | IndexError
  | KeyError string
  | Raised nat

text \<open>
  Modelled from the spec: the execution context registry (\<^verbatim>\<open>thunder.core.trace\<close> and
  \<^verbatim>\<open>thunder.core.langctx\<close>, imported by \<^verbatim>\<open>common.py\<close>, are not part of the sources at
  hand). The spec describes a stack of active traces and a stack of active language
  contexts; setting pushes and returns an opaque restoration token, resetting with the
  token restores what the token recorded, and a read with nothing active returns none.
\<close>

record registry =
  tracectx_stack :: "TraceCtx list"
  langctx_stack :: "langctx option list"

definition get_tracectx :: "registry \<Rightarrow> TraceCtx option" where
  "get_tracectx r = (case tracectx_stack r of [] \<Rightarrow> None | t # _ \<Rightarrow> Some t)"

definition set_tracectx :: "TraceCtx \<Rightarrow> registry \<Rightarrow> TraceCtx list \<times> registry" where
  "set_tracectx t r = (tracectx_stack r, r\<lparr>tracectx_stack := t # tracectx_stack r\<rparr>)"

definition reset_tracectx :: "TraceCtx list \<Rightarrow> registry \<Rightarrow> registry" where
  "reset_tracectx token r = r\<lparr>tracectx_stack := token\<rparr>"

definition get_langctx :: "registry \<Rightarrow> langctx option" where
  "get_langctx r = (case langctx_stack r of [] \<Rightarrow> None | l # _ \<Rightarrow> l)"

definition set_langctx :: "langctx option \<Rightarrow> registry \<Rightarrow> langctx option list \<times> registry" where
  "set_langctx l r = (langctx_stack r, r\<lparr>langctx_stack := l # langctx_stack r\<rparr>)"

definition reset_langctx :: "langctx option list \<Rightarrow> registry \<Rightarrow> registry" where
  "reset_langctx token r = r\<lparr>langctx_stack := token\<rparr>"

text \<open>
  The collaborators that \<^verbatim>\<open>common.py\<close> calls and does not define: the clock, the
  executables and the processed function (which may raise, and which see the active
  contexts), the autograd wrapper, the steps of trace construction, the lowering
  pipeline. Each is a parameter; a result \<open>Inl e\<close> is the exception \<open>e\<close>.
\<close>

record env =
  time_ns :: "nat \<Rightarrow> int"
  call_callable :: "Callable \<Rightarrow> pyval list \<Rightarrow> kwargs \<Rightarrow> registry \<Rightarrow> exn + pyval"
  call_function :: "pyfunction \<Rightarrow> pyval list \<Rightarrow> kwargs \<Rightarrow> registry \<Rightarrow> exn + pyval"
  thunder_backward :: "CompileData \<Rightarrow> exn + Callable"
  new_TraceCtx :: "pyfunction \<Rightarrow> exn + TraceCtx"
  unpack_inputs ::
    "pyfunction \<Rightarrow> TraceCtx \<Rightarrow> pyval list \<Rightarrow> kwargs \<Rightarrow> bool \<Rightarrow> exn + pyval list \<times> kwargs"
  ddp_sync :: "pyval list \<times> kwargs \<Rightarrow> exn + pyval list \<times> kwargs"
  any_future_tensors :: "TraceCtx \<Rightarrow> bool"
  wait_for_future :: "pyval \<Rightarrow> exn + pyval"
  python_return :: "pyval \<Rightarrow> exn + unit"
  set_output :: "TraceCtx \<Rightarrow> pyval \<Rightarrow> exn + unit"
  dce :: "TraceCtx \<Rightarrow> exn + TraceCtx"
  transform_for_execution ::
    "TraceCtx \<Rightarrow> nat list option \<Rightarrow> bool \<Rightarrow> bool \<Rightarrow> exn + TraceCtx \<times> TraceCtx list"
  python_callable :: "TraceCtx \<Rightarrow> exn + Callable"
  CUDAGraphExecutor :: "Callable \<Rightarrow> nat \<Rightarrow> exn + Callable"
  tensor_rows :: "tensor \<Rightarrow> exn + pyval list"
  proxy_rows :: "tensorproxy \<Rightarrow> exn + pyval list"

text \<open>
  What a call does is recorded as a list of events, oldest first: each lookup and
  store with the arguments passed to \<^verbatim>\<open>cache_get\<close> and \<^verbatim>\<open>cache_put\<close>, each run of an
  executable, each trace object created, each transform applied.
\<close>

datatype event =
    Lookup "pyval list" kwargs
  | Store Callable "TraceCtx list option" "pyval list" kwargs
  | Run Callable "pyval list" kwargs
  | Backward
  | TraceCall
  | NewTrace TraceCtx
  | InlinedCall
  | TracedCall
  | Transform TraceCtx
  | ExecuteTrace TraceCtx

record world =
  stats :: CompileStats
  contexts :: registry
  clock :: nat
  events :: "event list"

definition now :: "env \<Rightarrow> world \<Rightarrow> int \<times> world" where
  "now E w = (time_ns E (clock w), w\<lparr>clock := clock w + 1\<rparr>)"

definition on_stats :: "(CompileStats \<Rightarrow> CompileStats) \<Rightarrow> world \<Rightarrow> world" where
  "on_stats f w = w\<lparr>stats := f (stats w)\<rparr>"

text \<open>\<^verbatim>\<open>cs.field = time.time_ns()\<close>\<close>

definition stamp :: "env \<Rightarrow> (int \<Rightarrow> CompileStats \<Rightarrow> CompileStats) \<Rightarrow> world \<Rightarrow> world" where
  "stamp E store w = (case now E w of (t, w') \<Rightarrow> on_stats (store t) w')"

definition emit :: "event \<Rightarrow> world \<Rightarrow> world" where
  "emit e w = w\<lparr>events := events w @ [e]\<rparr>"

definition then_exn :: "exn + 'a \<Rightarrow> ('a \<Rightarrow> exn + 'b) \<Rightarrow> exn + 'b" where
  "then_exn m f = (case m of Inl e \<Rightarrow> Inl e | Inr x \<Rightarrow> f x)"

section \<open>Tracing\<close>

record trace_options =
  inline_trace :: bool
  rename_proxies :: bool
  include_return_statement :: bool
  use_dce :: bool
  insert_ddp_syncs :: bool

definition default_trace_options :: trace_options where
  "default_trace_options =
     \<lparr>inline_trace = True, rename_proxies = True, include_return_statement = True,
      use_dce = True, insert_ddp_syncs = False\<rparr>"

text \<open>\<^verbatim>\<open>trace\<close> returns the callable's result when it inlines and a trace otherwise.\<close>

datatype pyresult = Value pyval | Trace TraceCtx

definition langctx_for :: "CompileData option \<Rightarrow> registry \<Rightarrow> langctx option" where
  "langctx_for compile_data r =
     (case compile_data of
        None \<Rightarrow> get_langctx r
      | Some cd \<Rightarrow> (case langctx cd of None \<Rightarrow> get_langctx r | Some l \<Rightarrow> Some l))"

text \<open>
  The statements of \<^verbatim>\<open>_trace\<close> between \<^verbatim>\<open>set_tracectx(trace)\<close> and the end of the
  \<^verbatim>\<open>try\<close> block. The first exception ends them.
\<close>

definition traced_steps ::
  "env \<Rightarrow> trace_options \<Rightarrow> pyfunction \<Rightarrow> TraceCtx \<Rightarrow> pyval list \<Rightarrow> kwargs \<Rightarrow> registry
   \<Rightarrow> exn + pyresult" where
  "traced_steps E opts f trc args kwargs r =
     then_exn (unpack_inputs E f trc args kwargs (rename_proxies opts)) (\<lambda>proxies.
     then_exn (if insert_ddp_syncs opts then ddp_sync E proxies else Inr proxies) (\<lambda>proxies.
     then_exn (call_function E f (fst proxies) (snd proxies) r) (\<lambda>result.
     then_exn
       (if include_return_statement opts then
          then_exn (if any_future_tensors E trc then wait_for_future E result else Inr result)
            (\<lambda>result. then_exn (python_return E result) (\<lambda>_. Inr result))
        else Inr result) (\<lambda>result.
     then_exn (set_output E trc result) (\<lambda>_.
     then_exn (if use_dce opts then dce E trc else Inr trc) (\<lambda>trc.
     Inr (Trace trc)))))))"

text \<open>
  The \<^verbatim>\<open>try\<close> block after \<^verbatim>\<open>set_langctx\<close>. Besides the outcome it gives the value
  that \<^verbatim>\<open>tracectx_tok\<close> has when the block is left, which the \<^verbatim>\<open>finally\<close> clause reads.
\<close>

definition trace_try ::
  "env \<Rightarrow> trace_options \<Rightarrow> pyfunction \<Rightarrow> pyval list \<Rightarrow> kwargs \<Rightarrow> world
   \<Rightarrow> (exn + pyresult) \<times> TraceCtx list option \<times> world" where
  "trace_try E opts f args kwargs w =
     (let current_trace = get_tracectx (contexts w) in
      if current_trace \<noteq> None \<and> inline_trace opts then
        (let w1 = emit InlinedCall w in
         (map_sum id Value (call_function E f args kwargs (contexts w1)), None, w1))
      else
        (case new_TraceCtx E f of
           Inl e \<Rightarrow> (Inl e, None, w)
         | Inr trc \<Rightarrow>
             (case set_tracectx trc (contexts w) of (tracectx_tok, r) \<Rightarrow>
                (let w1 = emit TracedCall (emit (NewTrace trc) (w\<lparr>contexts := r\<rparr>)) in
                 (traced_steps E opts f trc args kwargs (contexts w1), Some tracectx_tok, w1)))))"

text \<open>
  \<^verbatim>\<open>_trace\<close>, the function that \<^verbatim>\<open>trace(...)\<close> returns. The \<^verbatim>\<open>finally\<close> clause
  runs on every way out of the \<^verbatim>\<open>try\<close> block; the resets are modelled as total, so
  the outcome of the block is the outcome of the call.
\<close>

definition trace_fn ::
  "env \<Rightarrow> trace_options \<Rightarrow> CompileData option \<Rightarrow> pyfunction \<Rightarrow> pyval list \<Rightarrow> kwargs \<Rightarrow> world
   \<Rightarrow> (exn + pyresult) \<times> world" where
  "trace_fn E opts compile_data f args kwargs w =
     (let langctx' = langctx_for compile_data (contexts w) in
      case set_langctx langctx' (contexts w) of (langctx_tok, r) \<Rightarrow>
      case trace_try E opts f args kwargs (emit TraceCall (w\<lparr>contexts := r\<rparr>)) of
        (outcome, tracectx_tok, w1) \<Rightarrow>
          (let w2 = w1\<lparr>contexts := reset_langctx langctx_tok (contexts w1)\<rparr>;
               w3 = (case tracectx_tok of
                       None \<Rightarrow> w2
                     | Some tok \<Rightarrow> w2\<lparr>contexts := reset_tracectx tok (contexts w2)\<rparr>)
           in (outcome, w3)))"

section \<open>Executing a trace\<close>

type_synonym transform = "TraceCtx \<Rightarrow> exn + TraceCtx \<times> TraceCtx list"

text \<open>
  \<^verbatim>\<open>for transform in transforms: trc, seq = transform(trc); traces.extend(seq)\<close>
\<close>

fun apply_transforms ::
  "transform list \<Rightarrow> TraceCtx \<Rightarrow> TraceCtx list \<Rightarrow> world
   \<Rightarrow> (exn + TraceCtx \<times> TraceCtx list) \<times> world" where
  "apply_transforms [] trc traces w = (Inr (trc, traces), w)"
| "apply_transforms (t # ts) trc traces w =
     (let w1 = emit (Transform trc) w in
      case t trc of
        Inl e \<Rightarrow> (Inl e, w1)
      | Inr (trc', seq) \<Rightarrow> apply_transforms ts trc' (traces @ seq) w1)"

definition execute_trace ::
  "env \<Rightarrow> CompileData \<Rightarrow> transform list \<Rightarrow> TraceCtx \<Rightarrow> pyval list \<Rightarrow> kwargs \<Rightarrow> world
   \<Rightarrow> (exn + pyval \<times> Callable \<times> TraceCtx list) \<times> world" where
  "execute_trace E cd post_optimization_transforms trc args kwargs w =
     (let w1 = emit (ExecuteTrace trc) w in
      case transform_for_execution E trc (executors_list cd) (only_execute_prims cd)
             (use_rematerialization cd) of
        Inl e \<Rightarrow> (Inl e, w1)
      | Inr (extrace, extraces) \<Rightarrow>
      case apply_transforms post_optimization_transforms extrace extraces w1 of
        (Inl e, w2) \<Rightarrow> (Inl e, w2)
      | (Inr (extrace, extraces), w2) \<Rightarrow>
      case python_callable E extrace of
        Inl e \<Rightarrow> (Inl e, w2)
      | Inr c \<Rightarrow>
      case (if use_cudagraphs cd then CUDAGraphExecutor E c (num_constant_args cd) else Inr c) of
        Inl e \<Rightarrow> (Inl e, w2)
      | Inr c \<Rightarrow>
          (let w3 = emit (Run c args kwargs) w2 in
           case call_callable E c args kwargs (contexts w3) of
             Inl e \<Rightarrow> (Inl e, w3)
           | Inr result \<Rightarrow> (Inr (result, c, extraces), w3)))"

section \<open>The dispatcher\<close>

text \<open>
  Modelled from the spec: \<^verbatim>\<open>thunder.core.pytree.tree_flatten\<close> is not part of the
  sources at hand. The leaves of the nested containers, in order.
\<close>

fun flatten :: "pyval \<Rightarrow> pyval list" where
  "flatten (PySequence k xs) = concat (map flatten xs)"
| "flatten (Collection xs) = concat (map flatten xs)"
| "flatten x = [x]"

definition tree_flatten :: "pyval list \<Rightarrow> kwargs \<Rightarrow> pyval list" where
  "tree_flatten args kwargs = concat (map flatten (args @ map snd kwargs))"

text \<open>
  \<^verbatim>\<open>any(isinstance(arg, tensor_cls) and arg.requires_grad for arg in flat_args)\<close>
  with \<^verbatim>\<open>tensor_cls = (torch.Tensor, TensorProxy)\<close>.
\<close>

definition any_requires_grad :: "pyval list \<Rightarrow> bool" where
  "any_requires_grad flat_args =
     (\<exists>arg \<in> set flat_args.
        case arg of
          Tensor t \<Rightarrow> requires_grad t
        | TensorProxy p \<Rightarrow> proxy_requires_grad p
        | _ \<Rightarrow> False)"

text \<open>The branch of \<^verbatim>\<open>_fn\<close> taken in \<^verbatim>\<open>FIXED\<close> mode when an executable is stored.\<close>

definition fixed_branch ::
  "env \<Rightarrow> pyval list \<Rightarrow> kwargs \<Rightarrow> world \<Rightarrow> (exn + pyresult) \<times> world" where
  "fixed_branch E args kwargs w =
     (let w1 = on_stats (\<lambda>cs. cs\<lparr>cache_hits := cache_hits cs + 1\<rparr>) w;
          w2 = stamp E (\<lambda>t cs. cs\<lparr>last_trace_cache_stop := t\<rparr>) w1;
          w3 = on_stats (\<lambda>cs. cs\<lparr>last_trace_tracing_start := -1\<rparr>) w2;
          w4 = on_stats (\<lambda>cs. cs\<lparr>last_trace_tracing_stop := -1\<rparr>) w3;
          w5 = stamp E (\<lambda>t cs. cs\<lparr>last_trace_host_execution_start := t\<rparr>) w4
      in case last_executed (stats w5) of
           None \<Rightarrow> (Inl TypeError, w5)
         | Some c \<Rightarrow>
             (let w6 = emit (Run c args kwargs) w5 in
              case call_callable E c args kwargs (contexts w6) of
                Inl e \<Rightarrow> (Inl e, w6)
              | Inr result \<Rightarrow>
                  (let w7 = stamp E (\<lambda>t cs. cs\<lparr>last_trace_host_execution_stop := t\<rparr>) w6;
                       w8 = on_stats (\<lambda>cs. cs\<lparr>last_trace_host_stop :=
                                                 last_trace_host_execution_stop cs\<rparr>) w7
                   in (Inr (Value result), w8))))"

text \<open>The branch taken in \<^verbatim>\<open>DYNAMIC_STRIDES\<close> mode when the lookup gives \<open>c\<close>.\<close>

definition dynamic_hit_branch ::
  "env \<Rightarrow> Callable \<Rightarrow> pyval list \<Rightarrow> kwargs \<Rightarrow> world \<Rightarrow> (exn + pyresult) \<times> world" where
  "dynamic_hit_branch E c args kwargs w =
     (let w1 = on_stats (\<lambda>cs. cs\<lparr>cache_hits := cache_hits cs + 1\<rparr>) w;
          w2 = on_stats (\<lambda>cs. cs\<lparr>last_executed := Some c\<rparr>) w1;
          w3 = stamp E (\<lambda>t cs. cs\<lparr>last_trace_cache_stop := t\<rparr>) w2;
          w4 = on_stats (\<lambda>cs. cs\<lparr>last_trace_tracing_start := -1\<rparr>) w3;
          w5 = on_stats (\<lambda>cs. cs\<lparr>last_trace_tracing_stop := -1\<rparr>) w4;
          w6 = stamp E (\<lambda>t cs. cs\<lparr>last_trace_host_execution_start := t\<rparr>) w5;
          w7 = emit (Run c args kwargs) w6
      in case call_callable E c args kwargs (contexts w7) of
           Inl e \<Rightarrow> (Inl e, w7)
         | Inr result \<Rightarrow>
             (let w8 = stamp E (\<lambda>t cs. cs\<lparr>last_trace_host_execution_stop := t\<rparr>) w7;
                  w9 = on_stats (\<lambda>cs. cs\<lparr>last_trace_host_stop :=
                                            last_trace_host_execution_stop cs\<rparr>) w8
              in (Inr (Value result), w9)))"

text \<open>\<^verbatim>\<open>cache_put(cs.cache, c, traces, args[cd.num_constant_args :], kwargs)\<close>\<close>

definition store_in_cache ::
  "CompileData \<Rightarrow> Callable \<Rightarrow> TraceCtx list option \<Rightarrow> pyval list \<Rightarrow> kwargs \<Rightarrow> world \<Rightarrow> world" where
  "store_in_cache cd c traces args kwargs w =
     (let key_args = drop (num_constant_args cd) args;
          w1 = emit (Store c traces key_args kwargs) w
      in on_stats (\<lambda>cs. cs\<lparr>cache := snd (cache_put (cache cs) c traces key_args kwargs)\<rparr>) w1)"

text \<open>The branch that wraps the function for autograd (\<^verbatim>\<open>thunder_backward\<close>).\<close>

definition autograd_branch ::
  "env \<Rightarrow> CompileData \<Rightarrow> pyval list \<Rightarrow> kwargs \<Rightarrow> world \<Rightarrow> (exn + pyresult) \<times> world" where
  "autograd_branch E cd args kwargs w =
     (let w1 = stamp E (\<lambda>t cs. cs\<lparr>last_trace_host_execution_start := t\<rparr>) w;
          w2 = emit Backward w1
      in case thunder_backward E cd of
           Inl e \<Rightarrow> (Inl e, w2)
         | Inr c \<Rightarrow>
             (let w3 = emit (Run c args kwargs) w2 in
              case call_callable E c args kwargs (contexts w3) of
                Inl e \<Rightarrow> (Inl e, w3)
              | Inr result \<Rightarrow>
                  (let w4 = stamp E (\<lambda>t cs. cs\<lparr>last_trace_host_execution_stop := t\<rparr>) w3;
                       w5 = on_stats (\<lambda>cs. cs\<lparr>last_executed := Some c\<rparr>) w4;
                       w6 = (if cache_mode cd = DYNAMIC_STRIDES
                             then store_in_cache cd c None args kwargs w5 else w5);
                       w7 = stamp E (\<lambda>t cs. cs\<lparr>last_trace_host_stop := t\<rparr>) w6
                   in (Inr (Value result), w7))))"

text \<open>
  The rest of \<^verbatim>\<open>_fn\<close>: acquire the trace or inline, check for inlined transforms,
  apply the transforms, execute, update the statistics and the cache. Where the source
  binds \<^verbatim>\<open>trc = trc_or_result\<close> a value that is no trace cannot go through the
  pipeline; that line is not reached (see \<open>trace_fn_result_kind\<close>).
\<close>

definition trace_branch ::
  "env \<Rightarrow> CompileData \<Rightarrow> transform list \<Rightarrow> transform list \<Rightarrow> pyval list \<Rightarrow> kwargs \<Rightarrow> world
   \<Rightarrow> (exn + pyresult) \<times> world" where
  "trace_branch E cd transforms post_optimization_transforms args kwargs w =
     (let w1 = stamp E (\<lambda>t cs. cs\<lparr>last_trace_tracing_start := t\<rparr>) w in
      case trace_fn E default_trace_options (Some cd) (processed_function cd) args kwargs w1 of
        (Inl e, w2) \<Rightarrow> (Inl e, w2)
      | (Inr trc_or_result, w2) \<Rightarrow>
      (let w3 = stamp E (\<lambda>t cs. cs\<lparr>last_trace_tracing_stop := t\<rparr>) w2;
           current_trace = get_tracectx (contexts w3)
       in if \<not> (current_trace = None \<or> length transforms = 0) then
            (Inl (NotImplementedError ''Inlining transformed traces is not yet supported''), w3)
          else if current_trace \<noteq> None then (Inr trc_or_result, w3)
          else
            (case trc_or_result of
               Value v \<Rightarrow> (Inl (AttributeError ''python_callable''), w3)
             | Trace trc \<Rightarrow>
             (case apply_transforms transforms trc [trc] w3 of
                (Inl e, w4) \<Rightarrow> (Inl e, w4)
              | (Inr (trc, traces), w4) \<Rightarrow>
              (let w5 = stamp E (\<lambda>t cs. cs\<lparr>last_trace_host_execution_start := t\<rparr>) w4 in
               case execute_trace E cd post_optimization_transforms trc args kwargs w5 of
                 (Inl e, w6) \<Rightarrow> (Inl e, w6)
               | (Inr (result, c, extraces), w6) \<Rightarrow>
                   (let w7 = stamp E (\<lambda>t cs. cs\<lparr>last_trace_host_execution_stop := t\<rparr>) w6;
                        traces = traces @ extraces;
                        w8 = on_stats (\<lambda>cs. cs\<lparr>last_traces := Some traces\<rparr>) w7;
                        w9 = on_stats (\<lambda>cs. cs\<lparr>last_executed := Some c\<rparr>) w8;
                        w10 = (if cache_mode cd = DYNAMIC_STRIDES
                               then store_in_cache cd c (Some traces) args kwargs w9 else w9);
                        w11 = stamp E (\<lambda>t cs. cs\<lparr>last_trace_host_stop := t\<rparr>) w10
                    in (Inr (Value result), w11)))))))"

text \<open>After a miss: count it, then choose between the autograd and the trace branch.\<close>

definition miss_branch ::
  "env \<Rightarrow> CompileData \<Rightarrow> transform list \<Rightarrow> transform list \<Rightarrow> pyval list \<Rightarrow> kwargs \<Rightarrow> world
   \<Rightarrow> (exn + pyresult) \<times> world" where
  "miss_branch E cd transforms post_optimization_transforms args kwargs w =
     (let w1 = on_stats (\<lambda>cs. cs\<lparr>cache_misses := cache_misses cs + 1\<rparr>) w;
          w2 = stamp E (\<lambda>t cs. cs\<lparr>last_trace_cache_stop := t\<rparr>) w1;
          flat_args = tree_flatten args kwargs;
          needs_grad = any_requires_grad flat_args
      in if \<not> disable_torch_autograd_support cd \<and> needs_grad
         then autograd_branch E cd args kwargs w2
         else trace_branch E cd transforms post_optimization_transforms args kwargs w2)"

text \<open>
  \<^verbatim>\<open>_fn\<close>, the function that \<^verbatim>\<open>_create_callable\<close> builds: the statistics \<^verbatim>\<open>cs\<close> are
  the \<open>stats\<close> of the world.
\<close>

definition create_callable_fn ::
  "env \<Rightarrow> CompileData \<Rightarrow> transform list \<Rightarrow> transform list \<Rightarrow> pyval list \<Rightarrow> kwargs \<Rightarrow> world
   \<Rightarrow> (exn + pyresult) \<times> world" where
  "create_callable_fn E cd transforms post_optimization_transforms args kwargs w =
     (let w1 = stamp E (\<lambda>t cs. cs\<lparr>last_trace_host_start := t\<rparr>) w;
          w2 = on_stats (\<lambda>cs. cs\<lparr>calls := calls cs + 1\<rparr>) w1;
          w3 = stamp E (\<lambda>t cs. cs\<lparr>last_trace_cache_start := t\<rparr>) w2
      in if cache_mode cd = FIXED \<and> last_executed (stats w3) \<noteq> None then
           fixed_branch E args kwargs w3
         else if cache_mode cd = DYNAMIC_STRIDES then
           (let key_args = drop (num_constant_args cd) args;
                w4 = emit (Lookup key_args kwargs) w3
            in case cache_get (cache (stats w4)) key_args kwargs of
                 (Some c, _) \<Rightarrow> dynamic_hit_branch E c args kwargs w4
               | (None, _) \<Rightarrow>
                   miss_branch E cd transforms post_optimization_transforms args kwargs w4)
         else miss_branch E cd transforms post_optimization_transforms args kwargs w3)"

text \<open>A sequence of calls of one compiled function, the world threaded through.\<close>

fun run_calls ::
  "env \<Rightarrow> CompileData \<Rightarrow> transform list \<Rightarrow> transform list \<Rightarrow> (pyval list \<times> kwargs) list \<Rightarrow> world
   \<Rightarrow> world" where
  "run_calls E cd transforms post [] w = w"
| "run_calls E cd transforms post ((args, kwargs) # rest) w =
     run_calls E cd transforms post rest
       (snd (create_callable_fn E cd transforms post args kwargs w))"

text \<open>The events that a call adds to the record.\<close>

definition new_events :: "world \<Rightarrow> world \<Rightarrow> event list" where
  "new_events w w' = drop (length (events w)) (events w')"

text \<open>
  A lookup or store event of a call with the arguments \<open>args\<close> and \<open>kwargs\<close> is as
  it should be when the mode is \<^verbatim>\<open>DYNAMIC_STRIDES\<close> and \<^verbatim>\<open>cache_get\<close> or
  \<^verbatim>\<open>cache_put\<close> received \<^verbatim>\<open>args[cd.num_constant_args :]\<close> and \<^verbatim>\<open>kwargs\<close>.
\<close>

fun cache_event_ok :: "CompileData \<Rightarrow> pyval list \<Rightarrow> kwargs \<Rightarrow> event \<Rightarrow> bool" where
  "cache_event_ok cd args kwargs (Lookup a k) =
     (cache_mode cd = DYNAMIC_STRIDES \<and> a = drop (num_constant_args cd) args \<and> k = kwargs)"
| "cache_event_ok cd args kwargs (Store c t a k) =
     (cache_mode cd = DYNAMIC_STRIDES \<and> a = drop (num_constant_args cd) args \<and> k = kwargs)"
| "cache_event_ok cd args kwargs _ = True"

fun is_cache_event :: "event \<Rightarrow> bool" where
  "is_cache_event (Lookup a k) = True"
| "is_cache_event (Store c t a k) = True"
| "is_cache_event _ = False"

section \<open>The module adapter\<close>

text \<open>
  The model that a \<^verbatim>\<open>ThunderOptimizedModule\<close> wraps is a graph of objects. An object
  is an address in a store that maps attribute names to other objects or to values, so
  that two paths to one submodule see each other's writes.
\<close>

type_synonym addr = nat

datatype attr = Object addr | Data pyval

type_synonym heap = "addr \<Rightarrow> (string \<rightharpoonup> attr)"

record ThunderOptimizedModule =
  model :: addr
  additional_param_values :: "pyval list"
  additional_param_names :: "string list"
  additional_return_names :: "string list"
  additional_return_param_idxes :: "nat list"

text \<open>
  \<^verbatim>\<open>d = {k: i for i, k in enumerate(additional_param_names)}\<close>: of two equal names
  the later index stays.
\<close>

definition param_index :: "string list \<Rightarrow> string \<rightharpoonup> nat" where
  "param_index names = map_of (rev (zip names [0..<length names]))"

fun lookup_all :: "(string \<rightharpoonup> nat) \<Rightarrow> string list \<Rightarrow> exn + nat list" where
  "lookup_all d [] = Inr []"
| "lookup_all d (k # ks) =
     (case d k of
        None \<Rightarrow> Inl (KeyError k)
      | Some i \<Rightarrow> (case lookup_all d ks of Inl e \<Rightarrow> Inl e | Inr is \<Rightarrow> Inr (i # is)))"

text \<open>
  \<^verbatim>\<open>__init__\<close>. The marking of the parameter values for distributed data parallel
  sets an attribute of the tensors that nothing here reads; it is left out.
\<close>

definition TOM_init ::
  "addr \<Rightarrow> string list \<Rightarrow> pyval list \<Rightarrow> string list \<Rightarrow> exn + ThunderOptimizedModule" where
  "TOM_init m param_names param_values return_names =
     (case lookup_all (param_index param_names) return_names of
        Inl e \<Rightarrow> Inl e
      | Inr idxes \<Rightarrow>
          Inr \<lparr>model = m, additional_param_values = param_values,
               additional_param_names = param_names,
               additional_return_names = return_names,
               additional_return_param_idxes = idxes\<rparr>)"

text \<open>\<^verbatim>\<open>k.split(".")\<close>\<close>

fun split_dot :: "string \<Rightarrow> string list" where
  "split_dot [] = [[]]"
| "split_dot (c # cs) =
     (if c = CHR ''.'' then [] # split_dot cs
      else (case split_dot cs of p # ps \<Rightarrow> (c # p) # ps | [] \<Rightarrow> [[c]]))"

text \<open>\<^verbatim>\<open>for p in parts[:-1]: m = getattr(m, p)\<close>\<close>

fun getattr_chain :: "heap \<Rightarrow> attr \<Rightarrow> string list \<Rightarrow> exn + attr" where
  "getattr_chain h m [] = Inr m"
| "getattr_chain h m (p # ps) =
     (case m of
        Data v \<Rightarrow> Inl (AttributeError p)
      | Object a \<Rightarrow>
          (case h a p of
             None \<Rightarrow> Inl (AttributeError p)
           | Some m' \<Rightarrow> getattr_chain h m' ps))"

definition setattr :: "heap \<Rightarrow> attr \<Rightarrow> string \<Rightarrow> pyval \<Rightarrow> exn + heap" where
  "setattr h m name v =
     (case m of
        Data _ \<Rightarrow> Inl (AttributeError name)
      | Object a \<Rightarrow> Inr (h(a := (h a)(name \<mapsto> Data v))))"

text \<open>
  One round of the loop over
  \<^verbatim>\<open>zip(_additional_return_names, additional_returns, _additional_return_param_idxes)\<close>.
  An exception leaves the writes made so far in place.
\<close>

definition write_back ::
  "addr \<Rightarrow> string \<Rightarrow> pyval \<Rightarrow> nat \<Rightarrow> heap \<times> pyval list \<Rightarrow> (exn + unit) \<times> heap \<times> pyval list" where
  "write_back root k v idx s =
     (case s of (h, params) \<Rightarrow>
        (let parts = split_dot k in
         case getattr_chain h (Object root) (butlast parts) of
           Inl e \<Rightarrow> (Inl e, h, params)
         | Inr m \<Rightarrow>
             (case setattr h m (last parts) v of
                Inl e \<Rightarrow> (Inl e, h, params)
              | Inr h' \<Rightarrow>
                  if idx < length params then (Inr (), h', params[idx := v])
                  else (Inl IndexError, h', params))))"

fun write_back_loop ::
  "addr \<Rightarrow> (string \<times> pyval \<times> nat) list \<Rightarrow> heap \<times> pyval list
   \<Rightarrow> (exn + unit) \<times> heap \<times> pyval list" where
  "write_back_loop root [] s = (Inr (), s)"
| "write_back_loop root ((k, v, idx) # rest) s =
     (case write_back root k v idx s of
        (Inl e, s') \<Rightarrow> (Inl e, s')
      | (Inr _, s') \<Rightarrow> write_back_loop root rest s')"

text \<open>
  Iterating the result for \<^verbatim>\<open>res, *additional_returns = res\<close>. A tensor or a
  tensor placeholder iterates over its first dimension, which is left to the
  environment; a scalar or an opaque
  object is not iterable.
\<close>

definition iterate :: "env \<Rightarrow> pyval \<Rightarrow> exn + pyval list" where
  "iterate E x =
     (case x of
        Tensor t \<Rightarrow> tensor_rows E t
      | NDArray a \<Rightarrow> Inl TypeError
      | Hashable h \<Rightarrow> Inl TypeError
      | Unhashable n \<Rightarrow> Inl TypeError
      | TensorProxy p \<Rightarrow> proxy_rows E p
      | _ \<Rightarrow> Inr (elements x))"

text \<open>
  \<^verbatim>\<open>ThunderOptimizedModule.__call__\<close>. The compiled function \<open>forward_fn\<close> has a
  state of its own, \<open>s\<close>.
\<close>

definition TOM_call ::
  "env \<Rightarrow> (pyval list \<Rightarrow> kwargs \<Rightarrow> 's \<Rightarrow> (exn + pyval) \<times> 's) \<Rightarrow> pyval list \<Rightarrow> kwargs
   \<Rightarrow> ThunderOptimizedModule \<times> heap \<times> 's
   \<Rightarrow> (exn + pyval) \<times> ThunderOptimizedModule \<times> heap \<times> 's" where
  "TOM_call E forward_fn args kwargs st =
     (case st of (self, h, s) \<Rightarrow>
        (let all_args = additional_param_values self @ args in
         case forward_fn all_args kwargs s of
           (Inl e, s') \<Rightarrow> (Inl e, self, h, s')
         | (Inr res, s') \<Rightarrow>
             if additional_return_names self \<noteq> [] then
               (case iterate E res of
                  Inl e \<Rightarrow> (Inl e, self, h, s')
                | Inr [] \<Rightarrow> (Inl ValueError, self, h, s')
                | Inr (res # additional_returns) \<Rightarrow>
                    if length (additional_return_names self) \<noteq> length additional_returns then
                      (Inl (AssertionError ''Number of expected additional return args does not match the actual number''),
                       self, h, s')
                    else
                      (case write_back_loop (model self)
                              (zip (additional_return_names self)
                                 (zip additional_returns (additional_return_param_idxes self)))
                              (h, additional_param_values self) of
                         (Inl e, h', params) \<Rightarrow>
                           (Inl e, self\<lparr>additional_param_values := params\<rparr>, h', s')
                       | (Inr _, h', params) \<Rightarrow>
                           (Inr res, self\<lparr>additional_param_values := params\<rparr>, h', s')))
             else (Inr res, self, h, s')))"

text \<open>
  What \<^verbatim>\<open>__init__\<close> establishes and a call keeps: the indexes are those of the return
  names among the parameter names.
\<close>

definition indexes_ok :: "ThunderOptimizedModule \<Rightarrow> bool" where
  "indexes_ok self =
     (lookup_all (param_index (additional_param_names self)) (additional_return_names self)
        = Inr (additional_return_param_idxes self))"

text \<open>
  The attribute slots that the rounds of the loop write, in order: for each name the
  object that its path without the last part leads to, in the store as it is when the
  round starts, and the last part.
\<close>

fun written_slots ::
  "addr \<Rightarrow> (string \<times> pyval \<times> nat) list \<Rightarrow> heap \<times> pyval list \<Rightarrow> (addr \<times> string) list" where
  "written_slots root [] s = []"
| "written_slots root ((k, v, idx) # rest) s =
     (case getattr_chain (fst s) (Object root) (butlast (split_dot k)) of
        Inr (Object a) \<Rightarrow>
          (a, last (split_dot k)) # written_slots root rest (snd (write_back root k v idx s))
      | _ \<Rightarrow> [])"

section \<open>Notions used to state the properties\<close>

text \<open>
  The caches that a compiled function can hold: \<^verbatim>\<open>CompileStats.__init__\<close> starts with
  the empty dict and \<^verbatim>\<open>cache_put\<close> is the only writer.
\<close>

inductive cache_reachable :: "cache \<Rightarrow> bool" where
  empty: "cache_reachable Map.empty"
| put: "cache_reachable kc \<Longrightarrow> cache_reachable (snd (cache_put kc fn traces args kwargs))"

text \<open>
  Two values agree in the fields (kind-tag, shape, device, element dtype,
  requires\_grad): tensors in all five, any other value in the only one it has, its
  kind; sequences item by item.
\<close>

fun metadata_agree :: "pyval \<Rightarrow> pyval \<Rightarrow> bool"
  and metadata_agree_list :: "pyval list \<Rightarrow> pyval list \<Rightarrow> bool" where
  "metadata_agree (Tensor a) (Tensor b) =
     (shape a = shape b \<and> device a = device b \<and> dtype a = dtype b \<and>
      requires_grad a = requires_grad b)"
| "metadata_agree (Str a) (Str b) = True"
| "metadata_agree (Hashable a) (Hashable b) = (type_of a = type_of b)"
| "metadata_agree (PySequence k xs) (PySequence k' ys) = metadata_agree_list xs ys"
| "metadata_agree _ _ = False"
| "metadata_agree_list [] [] = True"
| "metadata_agree_list (x # xs) (y # ys) = (metadata_agree x y \<and> metadata_agree_list xs ys)"
| "metadata_agree_list _ _ = False"

text \<open>
  Two values differ at most in the numeric contents of their tensors: tensors agree
  in the four metadata fields, strings and scalars are equal, sequences agree item by
  item.
\<close>

fun same_but_storage :: "pyval \<Rightarrow> pyval \<Rightarrow> bool"
  and same_but_storage_list :: "pyval list \<Rightarrow> pyval list \<Rightarrow> bool" where
  "same_but_storage (Tensor a) (Tensor b) =
     (shape a = shape b \<and> device a = device b \<and> dtype a = dtype b \<and>
      requires_grad a = requires_grad b)"
| "same_but_storage (Str a) (Str b) = (a = b)"
| "same_but_storage (Hashable a) (Hashable b) = (a = b)"
| "same_but_storage (PySequence k xs) (PySequence k' ys) = same_but_storage_list xs ys"
| "same_but_storage _ _ = False"
| "same_but_storage_list [] [] = True"
| "same_but_storage_list (x # xs) (y # ys) =
     (same_but_storage x y \<and> same_but_storage_list xs ys)"
| "same_but_storage_list _ _ = False"

fun same_but_storage_kwargs :: "kwargs \<Rightarrow> kwargs \<Rightarrow> bool" where
  "same_but_storage_kwargs [] [] = True"
| "same_but_storage_kwargs ((k, v) # xs) ((k', v') # ys) =
     (k = k' \<and> same_but_storage v v' \<and> same_but_storage_kwargs xs ys)"
| "same_but_storage_kwargs _ _ = False"

section \<open>A concrete environment\<close>

text \<open>
  One environment, configuration and starting world on which the definitions can be
  run: the clock counts its readings, executable number \<open>c\<close> returns the integer
  \<open>c\<close>, the processed function returns 0, the pipeline numbers its traces.
\<close>

definition demo_env :: env where
  "demo_env =
     \<lparr>time_ns = (\<lambda>n. int n),
      call_callable = (\<lambda>c args kwargs r. Inr (Hashable (PyInt (int c)))),
      call_function = (\<lambda>f args kwargs r. Inr (Hashable (PyInt 0))),
      thunder_backward = (\<lambda>cd. Inr 50),
      new_TraceCtx = (\<lambda>f. Inr 1),
      unpack_inputs = (\<lambda>f trc args kwargs rename. Inr (args, kwargs)),
      ddp_sync = Inr,
      any_future_tensors = (\<lambda>trc. False),
      wait_for_future = Inr,
      python_return = (\<lambda>result. Inr ()),
      set_output = (\<lambda>trc result. Inr ()),
      dce = (\<lambda>trc. Inr (trc + 1)),
      transform_for_execution = (\<lambda>trc ex prims remat. Inr (trc + 10, [trc + 10])),
      python_callable = (\<lambda>trc. Inr (trc + 100)),
      CUDAGraphExecutor = (\<lambda>c n. Inr (c + 1000)),
      tensor_rows = (\<lambda>t. Inl TypeError),
      proxy_rows = (\<lambda>p. Inl TypeError)\<rparr>"

definition demo_cd :: "CACHE_MODES \<Rightarrow> CompileData" where
  "demo_cd m =
     \<lparr>cache_mode = m, langctx = None, executors_list = None, only_execute_prims = False,
      use_rematerialization = False, use_cudagraphs = False,
      disable_torch_autograd_support = False, num_constant_args = 1,
      processed_function = 0\<rparr>"

definition demo_world :: world where
  "demo_world =
     \<lparr>stats = CompileStats_init,
      contexts = \<lparr>tracectx_stack = [], langctx_stack = []\<rparr>,
      clock = 0, events = []\<rparr>"


definition demo_tensor :: "bool \<Rightarrow> int list \<Rightarrow> pyval" where
  "demo_tensor grad xs =
     Tensor \<lparr>shape = [length xs], device = CPU, dtype = Float32, requires_grad = grad,
             storage = xs\<rparr>"

text \<open>The starting world with a trace already active.\<close>

definition active_world :: world where
  "active_world = demo_world\<lparr>contexts := \<lparr>tracectx_stack = [9], langctx_stack = []\<rparr>\<rparr>"

text \<open>The demo environment with a processed function that raises.\<close>

definition raising_env :: env where
  "raising_env = demo_env\<lparr>call_function := (\<lambda>f args kwargs r. Inl (Raised 7))\<rparr>"


text \<open>
  A module with a submodule \<open>layer\<close> that holds \<open>weight\<close>, its adapter with the
  parameters \<open>layer.weight\<close> and \<open>bias\<close>, and a compiled function that returns a
  result and one further value.
\<close>

definition demo_heap :: heap where
  "demo_heap =
     (\<lambda>a. Map.empty)
       (0 := [''layer'' \<mapsto> Object 1, ''bias'' \<mapsto> Data (Hashable (PyInt 2))],
        1 := [''weight'' \<mapsto> Data (Hashable (PyInt 1))])"

definition demo_module :: "string list \<Rightarrow> nat list \<Rightarrow> ThunderOptimizedModule" where
  "demo_module return_names idxes =
     \<lparr>model = 0,
      additional_param_values = [Hashable (PyInt 1), Hashable (PyInt 2)],
      additional_param_names = [''layer.weight'', ''bias''],
      additional_return_names = return_names,
      additional_return_param_idxes = idxes\<rparr>"

definition demo_forward :: "pyval list \<Rightarrow> kwargs \<Rightarrow> unit \<Rightarrow> (exn + pyval) \<times> unit" where
  "demo_forward args kwargs s =
     (Inr (PySequence PyTuple [Hashable (PyInt 10), Hashable (PyInt 11)]), s)"

section \<open>Properties of the fingerprint\<close>

lemma make_subkey_for_Tensor:
  "make_subkey_for (Tensor t) =
     (OBool True,
      OTuple [OType TTensor, OShape (shape t), ODevice (device t), ODtype (dtype t),
              OBool (requires_grad t)])"
  by (simp add: make_subkey_for.simps)

lemma make_subkey_for_NDArray: "make_subkey_for (NDArray a) = (OBool False, ONone)"
  by (simp add: make_subkey_for.simps)

lemma make_subkey_for_Str: "make_subkey_for (Str s) = (OBool True, OTuple [OType TStr, OStr s])"
  by (simp add: make_subkey_for.simps)

lemma make_subkey_for_PySequence:
  "make_subkey_for (PySequence k xs) = sequence_loop xs 0 (replicate (length xs) ONone)"
  by (simp add: make_subkey_for.simps)

lemma make_subkey_for_Collection: "make_subkey_for (Collection xs) = (OBool False, ONone)"
  by (simp add: make_subkey_for.simps)

lemma make_subkey_for_Hashable:
  "make_subkey_for (Hashable h) = (OBool True, OTuple [OType (type_of h), OHash h])"
  by (simp add: make_subkey_for.simps)

lemma make_subkey_for_Unhashable: "make_subkey_for (Unhashable n) = (OBool False, ONone)"
  by (simp add: make_subkey_for.simps)

lemma make_subkey_for_TensorProxy:
  "make_subkey_for (TensorProxy p) =
     (if proxy_hashable p then (OBool True, OTuple [OType (TClass ''TensorProxy''), OProxy p])
      else (OBool False, ONone))"
  by (simp add: make_subkey_for.simps)

lemmas make_subkey_for_cases =
  make_subkey_for_Tensor make_subkey_for_NDArray make_subkey_for_Str
  make_subkey_for_PySequence make_subkey_for_Collection make_subkey_for_Hashable
  make_subkey_for_Unhashable make_subkey_for_TensorProxy

lemma take_update_drop:
  "idx < length key \<Longrightarrow>
   take (Suc idx) (key[idx := k]) = take idx key @ [k] \<and>
   drop (Suc idx + n) (key[idx := k]) = drop (Suc idx + n) key"
  by (simp add: take_Suc_conv_app_nth)

lemma subkey_char:
  "make_subkey_for x =
     (if indeterminate x
      then (if isinstance_Sequence x then (ONone, OBool False) else (OBool False, ONone))
      else (OBool True, subkey_of x))"
  "idx + length vs \<le> length key \<Longrightarrow>
   sequence_loop vs idx key =
     (if \<exists>v \<in> set vs. indeterminate v then (ONone, OBool False)
      else (OBool True, OTuple (take idx key @ map subkey_of vs @ drop (idx + length vs) key)))"
proof (induction x and vs idx key rule: make_subkey_for_sequence_loop.induct)
  case (1 x)
  show ?case
  proof (cases x)
    case (PySequence k xs)
    have "sequence_loop xs 0 (replicate (length xs) ONone) =
      (if \<exists>v \<in> set xs. indeterminate v then (ONone, OBool False)
       else (OBool True, OTuple (take 0 (replicate (length xs) ONone) @ map subkey_of xs
              @ drop (0 + length xs) (replicate (length xs) ONone))))"
      using "1.IH" PySequence by simp
    then show ?thesis using PySequence by (simp add: make_subkey_for_PySequence)
  qed (simp_all add: make_subkey_for_cases)
next
  case (2 idx key)
  then show ?case by simp
next
  case (3 v vs idx key)
  have len: "idx < length key" "Suc idx + length vs \<le> length key"
    using "3.prems" by simp_all
  show ?case
  proof (cases "indeterminate v")
    case True
    then show ?thesis using "3.IH"(1) by simp
  next
    case False
    then have v: "make_subkey_for v = (OBool True, subkey_of v)"
      using "3.IH"(1) by simp
    have "sequence_loop vs (idx + 1) (key[idx := subkey_of v]) =
      (if \<exists>v \<in> set vs. indeterminate v then (ONone, OBool False)
       else (OBool True, OTuple (take (idx + 1) (key[idx := subkey_of v]) @ map subkey_of vs
              @ drop (idx + 1 + length vs) (key[idx := subkey_of v]))))"
      using "3.IH"(2)[OF v[symmetric]] len by simp
    then show ?thesis
      using v False len take_update_drop[of idx key "subkey_of v" "length vs"] by simp
  qed
qed


lemma truthy_make_subkey_for: "truthy (fst (make_subkey_for x)) = (\<not> indeterminate x)"
  by (simp add: subkey_char(1))

lemma args_loop_char:
  "idx + length args \<le> length key \<Longrightarrow>
   args_loop args idx key =
     (if \<exists>a \<in> set args. indeterminate a then None
      else Some (take idx key @ map subkey_of args @ drop (idx + length args) key))"
proof (induction args arbitrary: idx key)
  case Nil
  then show ?case by simp
next
  case (Cons a args)
  have len: "idx < length key" "Suc idx + length args \<le> length key"
    using Cons.prems by simp_all
  show ?case
  proof (cases "indeterminate a")
    case True
    then show ?thesis by (simp add: subkey_char(1))
  next
    case False
    have "args_loop args (Suc idx) (key[idx := subkey_of a]) =
      (if \<exists>a \<in> set args. indeterminate a then None
       else Some (take (Suc idx) (key[idx := subkey_of a]) @ map subkey_of args
              @ drop (Suc idx + length args) (key[idx := subkey_of a])))"
      using Cons.IH[of "Suc idx" "key[idx := subkey_of a]"] len by simp
    then show ?thesis
      using False len take_update_drop[of idx key "subkey_of a" "length args"]
      by (simp add: subkey_char(1))
  qed
qed

lemma kwarg_helper_char:
  "kwarg_helper (Str k) v =
     (if indeterminate v
      then (fst (make_subkey_for v),
            OTuple [subkey_of (Str k), OSeparator, snd (make_subkey_for v)])
      else (OBool True, kwarg_subkey_of (k, v)))"
  by (simp add: kwarg_helper_def make_subkey_for_Str py_and_def subkey_char(1)
      split: prod.splits)

lemma kwargs_loop_char:
  "offset + idx + length items \<le> length key \<Longrightarrow>
   kwargs_loop items offset idx key =
     (if \<exists>kv \<in> set items. indeterminate (snd kv) then ONone
      else OTuple (take (offset + idx) key @ map kwarg_subkey_of items
             @ drop (offset + idx + length items) key))"
proof (induction items arbitrary: idx key)
  case Nil
  then show ?case by simp
next
  case (Cons kv items)
  obtain k v where kv: "kv = (k, v)" by (cases kv)
  have len: "offset + idx < length key" "Suc (offset + idx) + length items \<le> length key"
    using Cons.prems by simp_all
  show ?case
  proof (cases "indeterminate v")
    case True
    then show ?thesis
      using truthy_make_subkey_for[of v] by (simp add: kv kwarg_helper_char)
  next
    case False
    have "kwargs_loop items offset (Suc idx) (key[offset + idx := kwarg_subkey_of (k, v)]) =
      (if \<exists>kv \<in> set items. indeterminate (snd kv) then ONone
       else OTuple (take (offset + Suc idx) (key[offset + idx := kwarg_subkey_of (k, v)])
              @ map kwarg_subkey_of items
              @ drop (offset + Suc idx + length items)
                  (key[offset + idx := kwarg_subkey_of (k, v)])))"
      using Cons.IH[of "Suc idx" "key[offset + idx := kwarg_subkey_of (k, v)]"] len by simp
    then show ?thesis
      using False len
        take_update_drop[of "offset + idx" key "kwarg_subkey_of (k, v)" "length items"]
      by (simp add: kv kwarg_helper_char del: kwarg_subkey_of.simps)
  qed
qed

lemma make_cache_key_char:
  "make_cache_key args kwargs =
     (if indeterminate_call args kwargs then ONone
      else OTuple (map subkey_of args @ map kwarg_subkey_of kwargs))"
proof (cases "\<exists>a \<in> set args. indeterminate a")
  case True
  then show ?thesis
    using args_loop_char[of 0 args "replicate (length args + length kwargs) ONone"]
    by (simp add: make_cache_key_def indeterminate_call_def)
next
  case False
  then have a: "args_loop args 0 (replicate (length args + length kwargs) ONone) =
      Some (map subkey_of args @ replicate (length kwargs) ONone)"
    using args_loop_char[of 0 args "replicate (length args + length kwargs) ONone"]
    by simp
  have "kwargs_loop kwargs (length args) 0 (map subkey_of args @ replicate (length kwargs) ONone) =
      (if \<exists>kv \<in> set kwargs. indeterminate (snd kv) then ONone
       else OTuple (map subkey_of args @ map kwarg_subkey_of kwargs))"
    using kwargs_loop_char[of "length args" 0 kwargs
        "map subkey_of args @ replicate (length kwargs) ONone"]
    by simp
  then show ?thesis
    using False a by (simp add: make_cache_key_def indeterminate_call_def)
qed

lemma make_cache_key_ONone: "(make_cache_key args kwargs = ONone) = indeterminate_call args kwargs"
  by (simp add: make_cache_key_char)


subsection \<open>Reachable caches\<close>

lemma cache_put_indeterminate:
  "indeterminate_call args kwargs \<Longrightarrow> cache_put kc fn traces args kwargs = (False, kc)"
  by (simp add: cache_put_def make_cache_key_ONone)

lemma cache_put_no_None_key: "kc ONone = None \<Longrightarrow> snd (cache_put kc fn traces args kwargs) ONone = None"
  by (simp add: cache_put_def Let_def)

lemma cache_reachable_no_None_key: "cache_reachable kc \<Longrightarrow> kc ONone = None"
  by (induction rule: cache_reachable.induct) (simp_all add: cache_put_no_None_key)

subsection \<open>Sequences and strings\<close>

text \<open>
  Claim C8. The sub-key of an ordered sequence is the tuple of the sub-keys of its
  items, each computed by \<^verbatim>\<open>_make_subkey_for\<close>. When some item is not hashable the
  function returns \<^verbatim>\<open>(None, False)\<close>, whose first component is false for the caller's
  \<^verbatim>\<open>not is_hashable\<close>, and \<^verbatim>\<open>_make_cache_key\<close> returns \<^verbatim>\<open>None\<close> wherever the
  sequence stands among the arguments or the keyword values. A string is a
  \<^verbatim>\<open>Sequence\<close> and yet gets the single sub-key \<^verbatim>\<open>(str, x)\<close>.
\<close>

theorem sequence_subkey_elementwise_and_strings_atomic:
  "((\<forall>v \<in> set xs. truthy (fst (make_subkey_for v))) \<longrightarrow>
      make_subkey_for (PySequence k xs) =
        (OBool True, OTuple (map (\<lambda>v. snd (make_subkey_for v)) xs))) \<and>
   ((\<exists>v \<in> set xs. \<not> truthy (fst (make_subkey_for v))) \<longrightarrow>
      make_subkey_for (PySequence k xs) = (ONone, OBool False) \<and>
      \<not> truthy (fst (make_subkey_for (PySequence k xs))) \<and>
      \<not> truthy (fst (make_subkey_for (PySequence k' (ys @ PySequence k xs # zs)))) \<and>
      make_cache_key (args1 @ PySequence k xs # args2) kwargs = ONone \<and>
      make_cache_key args (kwargs1 @ (name, PySequence k xs) # kwargs2) = ONone) \<and>
   isinstance_Sequence (Str s) \<and>
   make_subkey_for (Str s) = (OBool True, OTuple [OType TStr, OStr s])"
proof -
  have det: "make_subkey_for (PySequence k xs) =
      (OBool True, OTuple (map (\<lambda>v. snd (make_subkey_for v)) xs))"
    if "\<forall>v \<in> set xs. truthy (fst (make_subkey_for v))"
  proof -
    have a: "\<forall>v \<in> set xs. \<not> indeterminate v"
      using that by (simp add: truthy_make_subkey_for)
    then have "map (\<lambda>v. snd (make_subkey_for v)) xs = map subkey_of xs"
      by (simp add: subkey_char(1))
    then show ?thesis using a by (simp add: subkey_char(1))
  qed
  have indet: "make_subkey_for (PySequence k xs) = (ONone, OBool False) \<and>
      \<not> truthy (fst (make_subkey_for (PySequence k xs))) \<and>
      \<not> truthy (fst (make_subkey_for (PySequence k' (ys @ PySequence k xs # zs)))) \<and>
      make_cache_key (args1 @ PySequence k xs # args2) kwargs = ONone \<and>
      make_cache_key args (kwargs1 @ (name, PySequence k xs) # kwargs2) = ONone"
    if "\<exists>v \<in> set xs. \<not> truthy (fst (make_subkey_for v))"
  proof -
    have a: "indeterminate (PySequence k xs)"
      using that by (simp add: truthy_make_subkey_for)
    then show ?thesis
      by (simp add: subkey_char(1) make_cache_key_char indeterminate_call_def)
  qed
  show ?thesis using det indet by (simp add: make_subkey_for_Str)
qed

theorem sequence_subkey_elementwise_and_strings_atomic_witness:
  "make_subkey_for (PySequence PyList [Hashable (PyInt 1), Str ''ab'']) =
     (OBool True, OTuple [OTuple [OType TInt, OHash (PyInt 1)], OTuple [OType TStr, OStr ''ab'']]) \<and>
   make_subkey_for (PySequence PyTuple [Hashable (PyInt 1), NDArray [0]]) = (ONone, OBool False) \<and>
   make_cache_key [Str ''x'', PySequence PyTuple [Hashable (PyInt 1), NDArray [0]]] [] = ONone \<and>
   make_cache_key [] [(''k'', PySequence PyTuple [Hashable (PyInt 1), NDArray [0]])] = ONone \<and>
   make_subkey_for (Str ''ab'') = (OBool True, OTuple [OType TStr, OStr ''ab''])"
  using
    sequence_subkey_elementwise_and_strings_atomic
      [of "[Hashable (PyInt 1), Str ''ab'']" PyList]
    sequence_subkey_elementwise_and_strings_atomic
      [of "[Hashable (PyInt 1), NDArray [0]]" PyTuple PyList "[]" "[]" "[Str ''x'']" "[]" "[]"
          "[]" "[]" "''k''" "[]" "''ab''"]
  by (simp add: make_subkey_for_cases)

subsection \<open>Tensors contribute their metadata only\<close>

lemma same_but_storage_subkey:
  "same_but_storage x y \<Longrightarrow> \<not> indeterminate x \<and> \<not> indeterminate y \<and> subkey_of x = subkey_of y"
  "same_but_storage_list xs ys \<Longrightarrow>
     (\<forall>x \<in> set xs. \<not> indeterminate x) \<and> (\<forall>y \<in> set ys. \<not> indeterminate y) \<and>
     map subkey_of xs = map subkey_of ys"
  by (induction x y and xs ys rule: same_but_storage_same_but_storage_list.induct) simp_all

lemma same_but_storage_kwargs_subkey:
  "same_but_storage_kwargs xs ys \<Longrightarrow>
     (\<forall>kv \<in> set xs. \<not> indeterminate (snd kv)) \<and> (\<forall>kv \<in> set ys. \<not> indeterminate (snd kv)) \<and>
     map kwarg_subkey_of xs = map kwarg_subkey_of ys"
  by (induction xs ys rule: same_but_storage_kwargs.induct)
    (auto dest: same_but_storage_subkey(1))

text \<open>
  Claim C3, as the code has it. The sub-key of a tensor is the tuple (tensor class,
  shape, device, dtype, requires\_grad) and does not change with the tensor's numeric
  contents. Two calls whose tensors agree in those fields and whose strings and
  scalars are equal, sequences item by item and keyword names in the same order,
  have the same fingerprint, and it is not \<^verbatim>\<open>None\<close>.
\<close>

theorem tensor_subkey_is_metadata_and_fingerprint_ignores_storage:
  "make_subkey_for (Tensor t) =
     (OBool True,
      OTuple [OType TTensor, OShape (shape t), ODevice (device t), ODtype (dtype t),
              OBool (requires_grad t)]) \<and>
   make_subkey_for (Tensor (t\<lparr>storage := contents\<rparr>)) = make_subkey_for (Tensor t) \<and>
   (same_but_storage_list args args' \<and> same_but_storage_kwargs kwargs kwargs' \<longrightarrow>
      make_cache_key args kwargs = make_cache_key args' kwargs' \<and>
      make_cache_key args kwargs \<noteq> ONone)"
proof -
  have "make_cache_key args kwargs = make_cache_key args' kwargs' \<and>
      make_cache_key args kwargs \<noteq> ONone"
    if a: "same_but_storage_list args args'" and k: "same_but_storage_kwargs kwargs kwargs'"
    using same_but_storage_subkey(2)[OF a] same_but_storage_kwargs_subkey[OF k]
    by (simp add: make_cache_key_char indeterminate_call_def)
  moreover have "make_subkey_for (Tensor (t\<lparr>storage := contents\<rparr>)) = make_subkey_for (Tensor t)"
    by (simp add: make_subkey_for_Tensor)
  ultimately show ?thesis using make_subkey_for_Tensor[of t] by blast
qed

theorem tensor_subkey_is_metadata_and_fingerprint_ignores_storage_witness:
  "make_cache_key
     [Tensor \<lparr>shape = [4], device = CPU, dtype = Float32, requires_grad = False,
              storage = [1, 2, 3, 4]\<rparr>, Hashable (PyInt 2)]
     [(''name'', Str ''a'')] =
   make_cache_key
     [Tensor \<lparr>shape = [4], device = CPU, dtype = Float32, requires_grad = False,
              storage = [5, 6, 7, 8]\<rparr>, Hashable (PyInt 2)]
     [(''name'', Str ''a'')] \<and>
   make_cache_key
     [Tensor \<lparr>shape = [4], device = CPU, dtype = Float32, requires_grad = False,
              storage = [1, 2, 3, 4]\<rparr>, Hashable (PyInt 2)]
     [(''name'', Str ''a'')] \<noteq> ONone"
proof -
  have a: "same_but_storage_list
     [Tensor \<lparr>shape = [4], device = CPU, dtype = Float32, requires_grad = False,
              storage = [1, 2, 3, 4]\<rparr>, Hashable (PyInt 2)]
     [Tensor \<lparr>shape = [4], device = CPU, dtype = Float32, requires_grad = False,
              storage = [5, 6, 7, 8]\<rparr>, Hashable (PyInt 2)]"
    by simp
  have k: "same_but_storage_kwargs [(''name'', Str ''a'')] [(''name'', Str ''a'')]"
    by simp
  show ?thesis
    using a k tensor_subkey_is_metadata_and_fingerprint_ignores_storage
      [of _ _
        "[Tensor \<lparr>shape = [4], device = CPU, dtype = Float32, requires_grad = False,
              storage = [1, 2, 3, 4]\<rparr>, Hashable (PyInt 2)]"
        "[Tensor \<lparr>shape = [4], device = CPU, dtype = Float32, requires_grad = False,
              storage = [5, 6, 7, 8]\<rparr>, Hashable (PyInt 2)]"
        "[(''name'', Str ''a'')]" "[(''name'', Str ''a'')]"]
    by blast
qed

text \<open>
  The claim as stated lets the two calls differ wherever they agree in the metadata
  fields. Two integer arguments agree in their kind and have different fingerprints:
  the sub-key of a scalar is \<^verbatim>\<open>(type(x), x)\<close>.
\<close>

theorem scalars_of_one_type_have_different_fingerprints:
  "metadata_agree_list [Hashable (PyInt 3)] [Hashable (PyInt 4)] \<and>
   make_cache_key [Hashable (PyInt 3)] [] \<noteq> make_cache_key [Hashable (PyInt 4)] []"
  by (simp add: make_cache_key_char indeterminate_call_def)

section \<open>Properties of the dispatcher\<close>

subsection \<open>The small steps\<close>

lemma on_stats_simps:
  "stats (on_stats f w) = f (stats w)"
  "contexts (on_stats f w) = contexts w"
  "events (on_stats f w) = events w"
  "clock (on_stats f w) = clock w"
  by (simp_all add: on_stats_def)

lemma stamp_simps:
  "stats (stamp E store w) = store (time_ns E (clock w)) (stats w)"
  "contexts (stamp E store w) = contexts w"
  "events (stamp E store w) = events w"
  "clock (stamp E store w) = clock w + 1"
  by (simp_all add: stamp_def now_def on_stats_def)

lemma emit_simps:
  "stats (emit e w) = stats w"
  "contexts (emit e w) = contexts w"
  "events (emit e w) = events w @ [e]"
  "clock (emit e w) = clock w"
  by (simp_all add: emit_def)

lemmas step_simps = on_stats_simps stamp_simps emit_simps

lemma new_events_append: "events w' = events w @ es \<Longrightarrow> new_events w w' = es"
  by (simp add: new_events_def)

subsection \<open>Tracing leaves the statistics alone and restores the contexts\<close>

lemma trace_try_frame:
  "trace_try E opts f args kwargs w = (outcome, tok, w') \<Longrightarrow>
   stats w' = stats w \<and> clock w' = clock w \<and>
   langctx_stack (contexts w') = langctx_stack (contexts w) \<and>
   (case tok of
      None \<Rightarrow> tracectx_stack (contexts w') = tracectx_stack (contexts w)
    | Some saved \<Rightarrow> saved = tracectx_stack (contexts w))"
  by (auto simp: trace_try_def Let_def step_simps set_tracectx_def
      split: if_splits sum.splits prod.splits)

lemma trace_try_events:
  "trace_try E opts f args kwargs w = (outcome, tok, w') \<Longrightarrow>
   events w' = events w @
     (if get_tracectx (contexts w) \<noteq> None \<and> inline_trace opts then [InlinedCall]
      else (case new_TraceCtx E f of Inl e \<Rightarrow> [] | Inr trc \<Rightarrow> [NewTrace trc, TracedCall]))"
  by (auto simp: trace_try_def Let_def step_simps set_tracectx_def
      split: if_splits sum.splits prod.splits)

lemma trace_fn_frame:
  assumes "trace_fn E opts compile_data f args kwargs w = (outcome, w')"
  shows "stats w' = stats w" and "clock w' = clock w" and "contexts w' = contexts w"
    and "events w' = events w @ TraceCall #
     (if get_tracectx (contexts w) \<noteq> None \<and> inline_trace opts then [InlinedCall]
      else (case new_TraceCtx E f of Inl e \<Rightarrow> [] | Inr trc \<Rightarrow> [NewTrace trc, TracedCall]))"
proof -
  define w0 where
    "w0 = emit TraceCall (w\<lparr>contexts := snd (set_langctx (langctx_for compile_data (contexts w))
            (contexts w))\<rparr>)"
  obtain out tok w1 where t: "trace_try E opts f args kwargs w0 = (out, tok, w1)"
    by (cases "trace_try E opts f args kwargs w0") auto
  have w': "w' = (case tok of
        None \<Rightarrow> w1\<lparr>contexts := reset_langctx (langctx_stack (contexts w)) (contexts w1)\<rparr>
      | Some saved \<Rightarrow> w1\<lparr>contexts := reset_tracectx saved
           (reset_langctx (langctx_stack (contexts w)) (contexts w1))\<rparr>)"
    using assms t
    by (auto simp: trace_fn_def Let_def set_langctx_def w0_def split: prod.splits option.splits)
  have w0: "stats w0 = stats w" "clock w0 = clock w" "events w0 = events w @ [TraceCall]"
    "tracectx_stack (contexts w0) = tracectx_stack (contexts w)"
    "get_tracectx (contexts w0) = get_tracectx (contexts w)"
    by (simp_all add: w0_def step_simps set_langctx_def get_tracectx_def)
  note fr = trace_try_frame[OF t] trace_try_events[OF t]
  show "stats w' = stats w" "clock w' = clock w"
    using fr(1) w0 by (auto simp: w' split: option.splits)
  show "contexts w' = contexts w"
    using fr(1) w0
    by (cases tok) (auto simp: w' reset_langctx_def reset_tracectx_def)
  show "events w' = events w @ TraceCall #
     (if get_tracectx (contexts w) \<noteq> None \<and> inline_trace opts then [InlinedCall]
      else (case new_TraceCtx E f of Inl e \<Rightarrow> [] | Inr trc \<Rightarrow> [NewTrace trc, TracedCall]))"
    using fr(2) w0 by (cases tok) (simp_all add: w')
qed

lemma traced_steps_result: "traced_steps E opts f trc args kwargs r = Inr res \<Longrightarrow> \<exists>t. res = Trace t"
  by (auto simp: traced_steps_def then_exn_def split: sum.splits if_splits)

lemma trace_try_result_kind:
  "trace_try E opts f args kwargs w = (Inr res, tok, w') \<Longrightarrow>
   (\<exists>v. res = Value v) = (get_tracectx (contexts w) \<noteq> None \<and> inline_trace opts)"
  by (auto simp: trace_try_def Let_def map_sum_def
      split: if_splits sum.splits prod.splits dest: traced_steps_result)

lemma trace_fn_outcome:
  "fst (trace_fn E opts compile_data f args kwargs w) =
   fst (trace_try E opts f args kwargs
     (emit TraceCall (w\<lparr>contexts := snd (set_langctx (langctx_for compile_data (contexts w))
            (contexts w))\<rparr>)))"
  by (simp add: trace_fn_def Let_def split: prod.splits)

text \<open>
  \<^verbatim>\<open>_trace\<close> returns a value exactly when it was called under an active trace with
  inlining on, and a trace otherwise.
\<close>

lemma trace_fn_result_kind:
  assumes "trace_fn E opts compile_data f args kwargs w = (Inr r, w')"
  shows "(\<exists>v. r = Value v) = (get_tracectx (contexts w) \<noteq> None \<and> inline_trace opts)"
proof -
  define w0 where
    "w0 = emit TraceCall (w\<lparr>contexts := snd (set_langctx (langctx_for compile_data (contexts w))
            (contexts w))\<rparr>)"
  have g: "get_tracectx (contexts w0) = get_tracectx (contexts w)"
    by (simp add: w0_def step_simps set_langctx_def get_tracectx_def)
  obtain out tok w1 where t: "trace_try E opts f args kwargs w0 = (out, tok, w1)"
    by (cases "trace_try E opts f args kwargs w0") auto
  have "out = Inr r"
    using assms trace_fn_outcome[of E opts compile_data f args kwargs w] t
    by (simp add: w0_def)
  then show ?thesis
    using trace_try_result_kind[of E opts f args kwargs w0 r tok w1] t g by simp
qed

lemma apply_transforms_frame:
  "apply_transforms ts trc traces w = (outcome, w') \<Longrightarrow>
   stats w' = stats w \<and> contexts w' = contexts w \<and> clock w' = clock w \<and>
   (\<exists>es. events w' = events w @ es \<and> (\<forall>e \<in> set es. \<exists>t. e = Transform t) \<and>
         (ts = [] \<longrightarrow> es = []))"
proof (induction ts arbitrary: trc traces w)
  case Nil
  then show ?case by simp
next
  case (Cons t ts)
  show ?case
  proof (cases "t trc")
    case (Inl e)
    then show ?thesis using Cons.prems by (auto simp: Let_def step_simps)
  next
    case (Inr p)
    obtain trc' seq where p: "p = (trc', seq)" by (cases p)
    have "apply_transforms ts trc' (traces @ seq) (emit (Transform trc) w) = (outcome, w')"
      using Cons.prems Inr p by (simp add: Let_def)
    from Cons.IH[OF this] show ?thesis by (auto simp: step_simps)
  qed
qed

lemma execute_trace_frame:
  assumes "execute_trace E cd post trc args kwargs w = (outcome, w')"
  shows "stats w' = stats w \<and> contexts w' = contexts w \<and> clock w' = clock w \<and>
   (\<exists>es. events w' = events w @ es \<and> (\<forall>e \<in> set es. \<not> is_cache_event e))"
proof (cases "transform_for_execution E trc (executors_list cd) (only_execute_prims cd)
             (use_rematerialization cd)")
  case (Inl e)
  then show ?thesis using assms by (auto simp: execute_trace_def Let_def step_simps)
next
  case (Inr p)
  obtain extrace extraces where p: "p = (extrace, extraces)" by (cases p)
  obtain out1 w1 where a: "apply_transforms post extrace extraces (emit (ExecuteTrace trc) w)
      = (out1, w1)"
    by (cases "apply_transforms post extrace extraces (emit (ExecuteTrace trc) w)") auto
  from apply_transforms_frame[OF a] obtain es where
    w1: "stats w1 = stats w" "contexts w1 = contexts w" "clock w1 = clock w"
      "events w1 = events w @ ExecuteTrace trc # es" "\<forall>e \<in> set es. \<exists>t. e = Transform t"
    by (auto simp: step_simps)
  have es: "\<forall>e \<in> set es. \<not> is_cache_event e"
    using w1(5) by auto
  show ?thesis
    using assms Inr p a w1(1-4) es
    by (auto simp: execute_trace_def Let_def step_simps split: sum.splits prod.splits if_splits)
qed


subsection \<open>The branches of the dispatcher\<close>

lemma store_in_cache_simps:
  "stats (store_in_cache cd c tr args kwargs w) =
     (stats w)\<lparr>cache := snd (cache_put (cache (stats w)) c tr
                          (drop (num_constant_args cd) args) kwargs)\<rparr>"
  "contexts (store_in_cache cd c tr args kwargs w) = contexts w"
  "events (store_in_cache cd c tr args kwargs w) =
     events w @ [Store c tr (drop (num_constant_args cd) args) kwargs]"
  "clock (store_in_cache cd c tr args kwargs w) = clock w"
  by (simp_all add: store_in_cache_def Let_def step_simps)

lemma fixed_branch_hit:
  assumes "last_executed (stats w) = Some c"
    and "fixed_branch E args kwargs w = (outcome, w')"
  shows "outcome = map_sum id Value (call_callable E c args kwargs (contexts w)) \<and>
    events w' = events w @ [Run c args kwargs] \<and>
    contexts w' = contexts w \<and>
    cache (stats w') = cache (stats w) \<and>
    cache_hits (stats w') = cache_hits (stats w) + 1 \<and>
    cache_misses (stats w') = cache_misses (stats w) \<and>
    calls (stats w') = calls (stats w) \<and>
    last_trace_tracing_start (stats w') = -1 \<and>
    last_trace_tracing_stop (stats w') = -1 \<and>
    last_executed (stats w') = Some c \<and>
    last_traces (stats w') = last_traces (stats w)"
  using assms
  by (cases "call_callable E c args kwargs (contexts w)")
    (auto simp: fixed_branch_def Let_def step_simps)

lemma dynamic_hit_branch_hit:
  assumes "dynamic_hit_branch E c args kwargs w = (outcome, w')"
  shows "outcome = map_sum id Value (call_callable E c args kwargs (contexts w)) \<and>
    events w' = events w @ [Run c args kwargs] \<and>
    contexts w' = contexts w \<and>
    cache (stats w') = cache (stats w) \<and>
    cache_hits (stats w') = cache_hits (stats w) + 1 \<and>
    cache_misses (stats w') = cache_misses (stats w) \<and>
    calls (stats w') = calls (stats w) \<and>
    last_trace_tracing_start (stats w') = -1 \<and>
    last_trace_tracing_stop (stats w') = -1 \<and>
    last_executed (stats w') = Some c \<and>
    last_traces (stats w') = last_traces (stats w)"
  using assms
  by (cases "call_callable E c args kwargs (contexts w)")
    (auto simp: dynamic_hit_branch_def Let_def step_simps)

lemma autograd_branch_frame:
  assumes "autograd_branch E cd args kwargs w = (outcome, w')"
  shows "contexts w' = contexts w \<and>
    cache_hits (stats w') = cache_hits (stats w) \<and>
    cache_misses (stats w') = cache_misses (stats w) \<and>
    calls (stats w') = calls (stats w) \<and>
    (cache (stats w') = cache (stats w) \<or>
     cache_mode cd = DYNAMIC_STRIDES \<and>
     (\<exists>c tr. cache (stats w') =
        snd (cache_put (cache (stats w)) c tr (drop (num_constant_args cd) args) kwargs))) \<and>
    (\<exists>es. events w' = events w @ es \<and>
       (\<forall>e \<in> set es. cache_event_ok cd args kwargs e \<and> (\<forall>a k. e \<noteq> Lookup a k)) \<and>
       ((\<exists>r. outcome = Inr r) \<and> cache_mode cd = DYNAMIC_STRIDES \<longrightarrow>
          (\<exists>c tr. Store c tr (drop (num_constant_args cd) args) kwargs \<in> set es \<and>
             cache (stats w') =
               snd (cache_put (cache (stats w)) c tr (drop (num_constant_args cd) args) kwargs)))) \<and>
    ((\<exists>r. outcome = Inr r) \<longrightarrow> last_executed (stats w') \<noteq> None)"
proof (cases "thunder_backward E cd")
  case (Inl e)
  then show ?thesis using assms by (auto simp: autograd_branch_def Let_def step_simps)
next
  case (Inr c)
  show ?thesis
  proof (cases "call_callable E c args kwargs (contexts w)")
    case (Inl e)
    then show ?thesis
      using assms Inr by (auto simp: autograd_branch_def Let_def step_simps)
  next
    case r: (Inr result)
    show ?thesis
    proof (cases "cache_mode cd = DYNAMIC_STRIDES")
      case True
      then show ?thesis
        using assms Inr r
        by (auto simp: autograd_branch_def Let_def step_simps store_in_cache_simps) blast
    next
      case False
      then show ?thesis
        using assms Inr r by (auto simp: autograd_branch_def Let_def step_simps)
    qed
  qed
qed


lemma not_cache_event_ok:
  "\<not> is_cache_event e \<Longrightarrow> cache_event_ok cd args kwargs e \<and> (\<forall>a k. e \<noteq> Lookup a k)"
  by (cases e) simp_all

lemma trace_fn_inlined:
  assumes "get_tracectx (contexts w) \<noteq> None" and "inline_trace opts"
  shows "fst (trace_fn E opts compile_data f args kwargs w) =
    map_sum id Value
      (call_function E f args kwargs
         (snd (set_langctx (langctx_for compile_data (contexts w)) (contexts w))))"
proof -
  have "get_tracectx (snd (set_langctx l (contexts w))) \<noteq> None" for l
    using assms(1) by (simp add: set_langctx_def get_tracectx_def)
  then show ?thesis
    using assms(2) by (simp add: trace_fn_outcome trace_try_def Let_def step_simps)
qed

text \<open>The trace branch under an active trace: the call is inlined.\<close>

lemma trace_branch_inlined:
  assumes active: "get_tracectx (contexts w) \<noteq> None"
    and run: "trace_branch E cd transforms post args kwargs w = (outcome, w')"
  shows "outcome =
      (case call_function E (processed_function cd) args kwargs
              (snd (set_langctx (langctx_for (Some cd) (contexts w)) (contexts w))) of
         Inl e \<Rightarrow> Inl e
       | Inr v \<Rightarrow>
           if transforms = [] then Inr (Value v)
           else Inl (NotImplementedError ''Inlining transformed traces is not yet supported''))"
    and "events w' = events w @ [TraceCall, InlinedCall]"
    and "contexts w' = contexts w"
    and "cache (stats w') = cache (stats w)"
    and "last_executed (stats w') = last_executed (stats w)"
    and "last_traces (stats w') = last_traces (stats w)"
    and "cache_hits (stats w') = cache_hits (stats w)"
    and "cache_misses (stats w') = cache_misses (stats w)"
    and "calls (stats w') = calls (stats w)"
proof -
  define w1 where "w1 = stamp E (\<lambda>t cs. cs\<lparr>last_trace_tracing_start := t\<rparr>) w"
  obtain out2 w2 where tf:
    "trace_fn E default_trace_options (Some cd) (processed_function cd) args kwargs w1 = (out2, w2)"
    by (cases "trace_fn E default_trace_options (Some cd) (processed_function cd) args kwargs w1")
  have c1: "contexts w1 = contexts w"
    by (simp add: w1_def step_simps)
  have inl: "inline_trace default_trace_options"
    by (simp add: default_trace_options_def)
  have out2: "out2 = map_sum id Value
      (call_function E (processed_function cd) args kwargs
         (snd (set_langctx (langctx_for (Some cd) (contexts w)) (contexts w))))"
    using trace_fn_inlined[of w1 default_trace_options E "Some cd" "processed_function cd"
        args kwargs] active inl tf c1
    by simp
  note fr = trace_fn_frame[OF tf]
  have ev2: "events w2 = events w @ [TraceCall, InlinedCall]"
    using fr(4) active inl c1 by (simp add: w1_def step_simps)
  have st2: "stats w2 = stats w1" and ctx2: "contexts w2 = contexts w"
    using fr(1) fr(3) c1 by simp_all
  have act3: "get_tracectx (contexts (stamp E (\<lambda>t cs. cs\<lparr>last_trace_tracing_stop := t\<rparr>) w2))
      \<noteq> None"
    using active ctx2 by (simp add: step_simps)
  have both: "w' = (case out2 of
        Inl e \<Rightarrow> w2
      | Inr r \<Rightarrow> stamp E (\<lambda>t cs. cs\<lparr>last_trace_tracing_stop := t\<rparr>) w2) \<and>
    outcome = (case out2 of
        Inl e \<Rightarrow> Inl e
      | Inr r \<Rightarrow> if transforms = [] then Inr r
                else Inl (NotImplementedError ''Inlining transformed traces is not yet supported''))"
  proof (cases out2)
    case (Inl e)
    then show ?thesis
      using run tf by (auto simp: trace_branch_def Let_def w1_def[symmetric])
  next
    case (Inr r)
    show ?thesis
    proof (cases "transforms = []")
      case True
      then show ?thesis
        using run tf Inr act3 by (auto simp: trace_branch_def Let_def w1_def[symmetric])
    next
      case False
      then show ?thesis
        using run tf Inr act3 by (auto simp: trace_branch_def Let_def w1_def[symmetric])
    qed
  qed
  then have w': "w' = (case out2 of
        Inl e \<Rightarrow> w2
      | Inr r \<Rightarrow> stamp E (\<lambda>t cs. cs\<lparr>last_trace_tracing_stop := t\<rparr>) w2)"
    and outcome: "outcome = (case out2 of
        Inl e \<Rightarrow> Inl e
      | Inr r \<Rightarrow> if transforms = [] then Inr r
                else Inl (NotImplementedError ''Inlining transformed traces is not yet supported''))"
    by simp_all
  show "outcome =
      (case call_function E (processed_function cd) args kwargs
              (snd (set_langctx (langctx_for (Some cd) (contexts w)) (contexts w))) of
         Inl e \<Rightarrow> Inl e
       | Inr v \<Rightarrow>
           if transforms = [] then Inr (Value v)
           else Inl (NotImplementedError ''Inlining transformed traces is not yet supported''))"
    by (simp add: outcome out2 map_sum_def split: sum.splits)
  show "events w' = events w @ [TraceCall, InlinedCall]"
    using ev2 by (simp add: w' step_simps split: sum.splits)
  show "contexts w' = contexts w"
    using ctx2 by (simp add: w' step_simps split: sum.splits)
  show "cache (stats w') = cache (stats w)"
    "last_executed (stats w') = last_executed (stats w)"
    "last_traces (stats w') = last_traces (stats w)"
    "cache_hits (stats w') = cache_hits (stats w)"
    "cache_misses (stats w') = cache_misses (stats w)"
    "calls (stats w') = calls (stats w)"
    using st2 by (simp_all add: w' w1_def step_simps split: sum.splits)
qed

text \<open>The trace branch in general: what it can change.\<close>

lemma trace_branch_frame:
  assumes run: "trace_branch E cd transforms post args kwargs w = (outcome, w')"
  shows "contexts w' = contexts w \<and>
    cache_hits (stats w') = cache_hits (stats w) \<and>
    cache_misses (stats w') = cache_misses (stats w) \<and>
    calls (stats w') = calls (stats w) \<and>
    (cache (stats w') = cache (stats w) \<or>
     cache_mode cd = DYNAMIC_STRIDES \<and>
     (\<exists>c tr. cache (stats w') =
        snd (cache_put (cache (stats w)) c tr (drop (num_constant_args cd) args) kwargs))) \<and>
    (\<exists>es. events w' = events w @ es \<and>
       (\<forall>e \<in> set es. cache_event_ok cd args kwargs e \<and> (\<forall>a k. e \<noteq> Lookup a k)) \<and>
       ((\<exists>r. outcome = Inr r) \<and> cache_mode cd = DYNAMIC_STRIDES \<and>
        get_tracectx (contexts w) = None \<longrightarrow>
          (\<exists>c tr. Store c tr (drop (num_constant_args cd) args) kwargs \<in> set es \<and>
             cache (stats w') =
               snd (cache_put (cache (stats w)) c tr (drop (num_constant_args cd) args) kwargs)))) \<and>
    ((\<exists>r. outcome = Inr r) \<and> get_tracectx (contexts w) = None
       \<longrightarrow> last_executed (stats w') \<noteq> None)"
proof (cases "get_tracectx (contexts w) = None")
  case False
  note i = trace_branch_inlined[OF False run]
  show ?thesis
    using False i(2-9) by auto
next
  case True
  define w1 where "w1 = stamp E (\<lambda>t cs. cs\<lparr>last_trace_tracing_start := t\<rparr>) w"
  obtain out2 w2 where tf:
    "trace_fn E default_trace_options (Some cd) (processed_function cd) args kwargs w1 = (out2, w2)"
    by (cases "trace_fn E default_trace_options (Some cd) (processed_function cd) args kwargs w1")
  note fr = trace_fn_frame[OF tf]
  have c1: "contexts w1 = contexts w"
    by (simp add: w1_def step_simps)
  have ctx2: "contexts w2 = contexts w" and st2: "stats w2 = stats w1"
    using fr(1) fr(3) c1 by simp_all
  obtain es2 where ev2: "events w2 = events w @ es2" "\<forall>e \<in> set es2. \<not> is_cache_event e"
    using fr(4) by (auto simp: w1_def step_simps split: sum.splits)
  define w3 where "w3 = stamp E (\<lambda>t cs. cs\<lparr>last_trace_tracing_stop := t\<rparr>) w2"
  have w3: "contexts w3 = contexts w" "events w3 = events w @ es2"
    "cache (stats w3) = cache (stats w)" "cache_hits (stats w3) = cache_hits (stats w)"
    "cache_misses (stats w3) = cache_misses (stats w)" "calls (stats w3) = calls (stats w)"
    using ctx2 st2 ev2(1) by (simp_all add: w3_def w1_def step_simps)
  have nact3: "get_tracectx (contexts w3) = None"
    using True w3(1) by simp
  show ?thesis
  proof (cases out2)
    case (Inl e)
    then have "w' = w2" "outcome = Inl e"
      using run tf by (simp_all add: trace_branch_def Let_def w1_def[symmetric])
    then show ?thesis
      using ctx2 st2 ev2 not_cache_event_ok[of _ cd args kwargs]
      by (auto simp: w1_def step_simps)
  next
    case (Inr res)
    have nov: "\<not> (\<exists>v. res = Value v)"
      using trace_fn_result_kind[of E default_trace_options "Some cd" "processed_function cd"
          args kwargs w1 res w2] tf Inr True c1
      by simp
    then obtain trc where res: "res = Trace trc"
      by (cases res) auto
    obtain out4 w4 where at: "apply_transforms transforms trc [trc] w3 = (out4, w4)"
      by (cases "apply_transforms transforms trc [trc] w3")
    from apply_transforms_frame[OF at] obtain es4 where
      w4: "stats w4 = stats w3" "contexts w4 = contexts w3" "events w4 = events w3 @ es4"
        "\<forall>e \<in> set es4. \<exists>t. e = Transform t"
      by auto
    show ?thesis
    proof (cases out4)
      case (Inl e)
      then have "w' = w4" "outcome = Inl e"
        using run tf Inr res at nact3
        by (simp_all add: trace_branch_def Let_def w1_def[symmetric] w3_def[symmetric])
      have "\<forall>e \<in> set (es2 @ es4). \<not> is_cache_event e"
        using ev2(2) w4(4) by auto
      then have "\<forall>e \<in> set (es2 @ es4).
          cache_event_ok cd args kwargs e \<and> (\<forall>a k. e \<noteq> Lookup a k)"
        using not_cache_event_ok[of _ cd args kwargs] by blast
      then show ?thesis
        using w3 w4(1-3) \<open>w' = w4\<close> \<open>outcome = Inl e\<close> by simp
    next
      case r4: (Inr p)
      obtain trc' traces where p: "p = (trc', traces)" by (cases p)
      define w5 where "w5 = stamp E (\<lambda>t cs. cs\<lparr>last_trace_host_execution_start := t\<rparr>) w4"
      obtain out6 w6 where ex: "execute_trace E cd post trc' args kwargs w5 = (out6, w6)"
        by (cases "execute_trace E cd post trc' args kwargs w5")
      from execute_trace_frame[OF ex] obtain es6 where
        w6: "stats w6 = stats w5" "contexts w6 = contexts w5" "events w6 = events w5 @ es6"
          "\<forall>e \<in> set es6. \<not> is_cache_event e"
        by auto
      have w6': "contexts w6 = contexts w" "events w6 = events w @ es2 @ es4 @ es6"
        "cache (stats w6) = cache (stats w)" "cache_hits (stats w6) = cache_hits (stats w)"
        "cache_misses (stats w6) = cache_misses (stats w)" "calls (stats w6) = calls (stats w)"
        using w6(1-3) w4(1-3) w3 by (simp_all add: w5_def step_simps)
      have "\<forall>e \<in> set (es2 @ es4 @ es6). \<not> is_cache_event e"
        using ev2(2) w4(4) w6(4) by auto
      then have ok: "\<forall>e \<in> set (es2 @ es4 @ es6).
          cache_event_ok cd args kwargs e \<and> (\<forall>a k. e \<noteq> Lookup a k)"
        using not_cache_event_ok[of _ cd args kwargs] by blast
      show ?thesis
      proof (cases out6)
        case (Inl e)
        then have "w' = w6" "outcome = Inl e"
          using run tf Inr res at r4 p ex nact3
          by (simp_all add: trace_branch_def Let_def w1_def[symmetric] w3_def[symmetric]
              w5_def[symmetric])
        then show ?thesis
          using w6' ok by simp
      next
        case r6: (Inr q)
        obtain result c extraces where q: "q = (result, c, extraces)" by (cases q)
        define w9 where "w9 = on_stats (\<lambda>cs. cs\<lparr>last_executed := Some c\<rparr>)
            (on_stats (\<lambda>cs. cs\<lparr>last_traces := Some (traces @ extraces)\<rparr>)
              (stamp E (\<lambda>t cs. cs\<lparr>last_trace_host_execution_stop := t\<rparr>) w6))"
        have w': "w' = stamp E (\<lambda>t cs. cs\<lparr>last_trace_host_stop := t\<rparr>)
            (if cache_mode cd = DYNAMIC_STRIDES
             then store_in_cache cd c (Some (traces @ extraces)) args kwargs w9 else w9)"
          and outcome: "outcome = Inr (Value result)"
          using run tf Inr res at r4 p ex r6 q nact3
          by (auto simp: trace_branch_def Let_def w1_def[symmetric] w3_def[symmetric]
              w5_def[symmetric] w9_def)
        have w9: "contexts w9 = contexts w" "events w9 = events w @ es2 @ es4 @ es6"
          "cache (stats w9) = cache (stats w)" "cache_hits (stats w9) = cache_hits (stats w)"
          "cache_misses (stats w9) = cache_misses (stats w)" "calls (stats w9) = calls (stats w)"
          "last_executed (stats w9) = Some c"
          using w6' by (simp_all add: w9_def step_simps)
        show ?thesis
        proof (cases "cache_mode cd = DYNAMIC_STRIDES")
          case ds: True
          then show ?thesis
            using w9 ok by (simp add: w' outcome step_simps store_in_cache_simps) blast
        next
          case nds: False
          then show ?thesis
            using w9 ok by (simp add: w' step_simps)
        qed
      qed
    qed
  qed
qed


lemma miss_branch_frame:
  assumes run: "miss_branch E cd transforms post args kwargs w = (outcome, w')"
  shows "contexts w' = contexts w \<and>
    cache_hits (stats w') = cache_hits (stats w) \<and>
    cache_misses (stats w') = cache_misses (stats w) + 1 \<and>
    calls (stats w') = calls (stats w) \<and>
    (cache (stats w') = cache (stats w) \<or>
     cache_mode cd = DYNAMIC_STRIDES \<and>
     (\<exists>c tr. cache (stats w') =
        snd (cache_put (cache (stats w)) c tr (drop (num_constant_args cd) args) kwargs))) \<and>
    (\<exists>es. events w' = events w @ es \<and>
       (\<forall>e \<in> set es. cache_event_ok cd args kwargs e \<and> (\<forall>a k. e \<noteq> Lookup a k)) \<and>
       ((\<exists>r. outcome = Inr r) \<and> cache_mode cd = DYNAMIC_STRIDES \<and>
        get_tracectx (contexts w) = None \<longrightarrow>
          (\<exists>c tr. Store c tr (drop (num_constant_args cd) args) kwargs \<in> set es \<and>
             cache (stats w') =
               snd (cache_put (cache (stats w)) c tr (drop (num_constant_args cd) args) kwargs)))) \<and>
    ((\<exists>r. outcome = Inr r) \<and> get_tracectx (contexts w) = None
       \<longrightarrow> last_executed (stats w') \<noteq> None)"
proof -
  define w2 where "w2 = stamp E (\<lambda>t cs. cs\<lparr>last_trace_cache_stop := t\<rparr>)
      (on_stats (\<lambda>cs. cs\<lparr>cache_misses := cache_misses cs + 1\<rparr>) w)"
  have w2: "contexts w2 = contexts w" "events w2 = events w" "cache (stats w2) = cache (stats w)"
    "cache_hits (stats w2) = cache_hits (stats w)"
    "cache_misses (stats w2) = cache_misses (stats w) + 1" "calls (stats w2) = calls (stats w)"
    by (simp_all add: w2_def step_simps)
  have "contexts w' = contexts w2 \<and>
    cache_hits (stats w') = cache_hits (stats w2) \<and>
    cache_misses (stats w') = cache_misses (stats w2) \<and>
    calls (stats w') = calls (stats w2) \<and>
    (cache (stats w') = cache (stats w2) \<or>
     cache_mode cd = DYNAMIC_STRIDES \<and>
     (\<exists>c tr. cache (stats w') =
        snd (cache_put (cache (stats w2)) c tr (drop (num_constant_args cd) args) kwargs))) \<and>
    (\<exists>es. events w' = events w2 @ es \<and>
       (\<forall>e \<in> set es. cache_event_ok cd args kwargs e \<and> (\<forall>a k. e \<noteq> Lookup a k)) \<and>
       ((\<exists>r. outcome = Inr r) \<and> cache_mode cd = DYNAMIC_STRIDES \<and>
        get_tracectx (contexts w2) = None \<longrightarrow>
          (\<exists>c tr. Store c tr (drop (num_constant_args cd) args) kwargs \<in> set es \<and>
             cache (stats w') =
               snd (cache_put (cache (stats w2)) c tr (drop (num_constant_args cd) args) kwargs)))) \<and>
    ((\<exists>r. outcome = Inr r) \<and> get_tracectx (contexts w2) = None
       \<longrightarrow> last_executed (stats w') \<noteq> None)"
  proof (cases "\<not> disable_torch_autograd_support cd \<and>
      any_requires_grad (tree_flatten args kwargs)")
    case True
    then have r: "autograd_branch E cd args kwargs w2 = (outcome, w')"
      using run by (simp add: miss_branch_def Let_def w2_def)
    note fr = autograd_branch_frame[OF r]
    from fr[THEN conjunct2, THEN conjunct2, THEN conjunct2, THEN conjunct2, THEN conjunct2,
        THEN conjunct1]
    obtain es where es: "events w' = events w2 @ es"
      "\<forall>e \<in> set es. cache_event_ok cd args kwargs e \<and> (\<forall>a k. e \<noteq> Lookup a k)"
      "(\<exists>r. outcome = Inr r) \<and> cache_mode cd = DYNAMIC_STRIDES \<longrightarrow>
          (\<exists>c tr. Store c tr (drop (num_constant_args cd) args) kwargs \<in> set es \<and>
             cache (stats w') =
               snd (cache_put (cache (stats w2)) c tr (drop (num_constant_args cd) args) kwargs))"
      by (elim exE conjE)
    have ev: "\<exists>es. events w' = events w2 @ es \<and>
       (\<forall>e \<in> set es. cache_event_ok cd args kwargs e \<and> (\<forall>a k. e \<noteq> Lookup a k)) \<and>
       ((\<exists>r. outcome = Inr r) \<and> cache_mode cd = DYNAMIC_STRIDES \<and>
        get_tracectx (contexts w2) = None \<longrightarrow>
          (\<exists>c tr. Store c tr (drop (num_constant_args cd) args) kwargs \<in> set es \<and>
             cache (stats w') =
               snd (cache_put (cache (stats w2)) c tr (drop (num_constant_args cd) args) kwargs)))"
      by (rule exI[of _ es]) (use es in simp)
    show ?thesis
      using fr[THEN conjunct1] fr[THEN conjunct2, THEN conjunct1]
        fr[THEN conjunct2, THEN conjunct2, THEN conjunct1]
        fr[THEN conjunct2, THEN conjunct2, THEN conjunct2, THEN conjunct1]
        fr[THEN conjunct2, THEN conjunct2, THEN conjunct2, THEN conjunct2, THEN conjunct1]
        fr[THEN conjunct2, THEN conjunct2, THEN conjunct2, THEN conjunct2, THEN conjunct2,
          THEN conjunct2]
        ev
      by (intro conjI) simp_all
  next
    case False
    then have "trace_branch E cd transforms post args kwargs w2 = (outcome, w')"
      using run by (auto simp: miss_branch_def Let_def w2_def)
    from trace_branch_frame[OF this] show ?thesis .
  qed
  then show ?thesis
    unfolding w2 .
qed

lemma cache_get_fst_None: "(fst (cache_get kc a k) = None) = (kc (make_cache_key a k) = None)"
  by (simp add: cache_get_def Let_def split: option.splits prod.splits)

text \<open>What a call of the compiled function can change.\<close>

lemma create_callable_fn_frame:
  assumes run: "create_callable_fn E cd transforms post args kwargs w = (outcome, w')"
  shows "contexts w' = contexts w"
    and "calls (stats w') = calls (stats w) + 1"
    and "cache (stats w') = cache (stats w) \<or>
     cache_mode cd = DYNAMIC_STRIDES \<and>
     fst (cache_get (cache (stats w)) (drop (num_constant_args cd) args) kwargs) = None \<and>
     (\<exists>c tr. cache (stats w') =
        snd (cache_put (cache (stats w)) c tr (drop (num_constant_args cd) args) kwargs))"
    and "\<exists>es. events w' = events w @ es \<and>
       (\<forall>e \<in> set es. cache_event_ok cd args kwargs e) \<and>
       (cache_mode cd = DYNAMIC_STRIDES \<longrightarrow>
          Lookup (drop (num_constant_args cd) args) kwargs \<in> set es) \<and>
       ((\<exists>r. outcome = Inr r) \<and> cache_mode cd = DYNAMIC_STRIDES \<and>
        fst (cache_get (cache (stats w)) (drop (num_constant_args cd) args) kwargs) = None \<and>
        get_tracectx (contexts w) = None \<longrightarrow>
          (\<exists>c tr. Store c tr (drop (num_constant_args cd) args) kwargs \<in> set es \<and>
             cache (stats w') =
               snd (cache_put (cache (stats w)) c tr (drop (num_constant_args cd) args) kwargs)))"
    and "(\<exists>r. outcome = Inr r) \<and> get_tracectx (contexts w) = None
       \<longrightarrow> last_executed (stats w') \<noteq> None"
proof -
  define w3 where "w3 = stamp E (\<lambda>t cs. cs\<lparr>last_trace_cache_start := t\<rparr>)
      (on_stats (\<lambda>cs. cs\<lparr>calls := calls cs + 1\<rparr>)
        (stamp E (\<lambda>t cs. cs\<lparr>last_trace_host_start := t\<rparr>) w))"
  define key_args where "key_args = drop (num_constant_args cd) args"
  have w3: "contexts w3 = contexts w" "events w3 = events w" "cache (stats w3) = cache (stats w)"
    "calls (stats w3) = calls (stats w) + 1" "last_executed (stats w3) = last_executed (stats w)"
    by (simp_all add: w3_def step_simps)
  let ?goal = "contexts w' = contexts w \<and>
    calls (stats w') = calls (stats w) + 1 \<and>
    (cache (stats w') = cache (stats w) \<or>
     cache_mode cd = DYNAMIC_STRIDES \<and>
     fst (cache_get (cache (stats w)) key_args kwargs) = None \<and>
     (\<exists>c tr. cache (stats w') = snd (cache_put (cache (stats w)) c tr key_args kwargs))) \<and>
    (\<exists>es. events w' = events w @ es \<and>
       (\<forall>e \<in> set es. cache_event_ok cd args kwargs e) \<and>
       (cache_mode cd = DYNAMIC_STRIDES \<longrightarrow> Lookup key_args kwargs \<in> set es) \<and>
       ((\<exists>r. outcome = Inr r) \<and> cache_mode cd = DYNAMIC_STRIDES \<and>
        fst (cache_get (cache (stats w)) key_args kwargs) = None \<and>
        get_tracectx (contexts w) = None \<longrightarrow>
          (\<exists>c tr. Store c tr key_args kwargs \<in> set es \<and>
             cache (stats w') = snd (cache_put (cache (stats w)) c tr key_args kwargs)))) \<and>
    ((\<exists>r. outcome = Inr r) \<and> get_tracectx (contexts w) = None
       \<longrightarrow> last_executed (stats w') \<noteq> None)"
  consider (fixed) "cache_mode cd = FIXED" "last_executed (stats w3) \<noteq> None"
    | (dynamic) "cache_mode cd = DYNAMIC_STRIDES"
    | (other) "\<not> (cache_mode cd = FIXED \<and> last_executed (stats w3) \<noteq> None)"
        "cache_mode cd \<noteq> DYNAMIC_STRIDES"
    by blast
  then have ?goal
  proof cases
    case fixed
    then obtain c where c: "last_executed (stats w3) = Some c" by auto
    have r: "fixed_branch E args kwargs w3 = (outcome, w')"
      using run fixed by (simp add: create_callable_fn_def Let_def w3_def)
    note h = fixed_branch_hit[OF c r]
    have "events w' = events w @ [Run c args kwargs]"
      using h w3 by simp
    then have "\<exists>es. events w' = events w @ es \<and>
       (\<forall>e \<in> set es. cache_event_ok cd args kwargs e) \<and>
       (cache_mode cd = DYNAMIC_STRIDES \<longrightarrow> Lookup key_args kwargs \<in> set es) \<and>
       ((\<exists>r. outcome = Inr r) \<and> cache_mode cd = DYNAMIC_STRIDES \<and>
        fst (cache_get (cache (stats w)) key_args kwargs) = None \<and>
        get_tracectx (contexts w) = None \<longrightarrow>
          (\<exists>c tr. Store c tr key_args kwargs \<in> set es \<and>
             cache (stats w') = snd (cache_put (cache (stats w)) c tr key_args kwargs)))"
      using fixed(1) by (intro exI[of _ "[Run c args kwargs]"]) simp
    moreover have "contexts w' = contexts w" "calls (stats w') = calls (stats w) + 1"
      "cache (stats w') = cache (stats w)" "last_executed (stats w') \<noteq> None"
      using h w3 by simp_all
    ultimately show ?thesis by simp
  next
    case dynamic
    define w4 where "w4 = emit (Lookup key_args kwargs) w3"
    have w4: "contexts w4 = contexts w" "events w4 = events w @ [Lookup key_args kwargs]"
      "cache (stats w4) = cache (stats w)" "calls (stats w4) = calls (stats w) + 1"
      using w3 by (simp_all add: w4_def step_simps)
    obtain f t where g: "cache_get (cache (stats w)) key_args kwargs = (f, t)"
      by (cases "cache_get (cache (stats w)) key_args kwargs")
    show ?thesis
    proof (cases f)
      case (Some c)
      then have r: "dynamic_hit_branch E c args kwargs w4 = (outcome, w')"
        using run dynamic g w4(3)
        by (simp add: create_callable_fn_def Let_def w3_def[symmetric] key_args_def[symmetric]
            w4_def[symmetric])
      note h = dynamic_hit_branch_hit[OF r]
      have "events w' = events w @ [Lookup key_args kwargs, Run c args kwargs]"
        using h w4 by simp
      then have "\<exists>es. events w' = events w @ es \<and>
         (\<forall>e \<in> set es. cache_event_ok cd args kwargs e) \<and>
         (cache_mode cd = DYNAMIC_STRIDES \<longrightarrow> Lookup key_args kwargs \<in> set es) \<and>
         ((\<exists>r. outcome = Inr r) \<and> cache_mode cd = DYNAMIC_STRIDES \<and>
          fst (cache_get (cache (stats w)) key_args kwargs) = None \<and>
          get_tracectx (contexts w) = None \<longrightarrow>
            (\<exists>c tr. Store c tr key_args kwargs \<in> set es \<and>
               cache (stats w') = snd (cache_put (cache (stats w)) c tr key_args kwargs)))"
        using dynamic g Some
        by (intro exI[of _ "[Lookup key_args kwargs, Run c args kwargs]"])
          (simp add: key_args_def)
      moreover have "contexts w' = contexts w" "calls (stats w') = calls (stats w) + 1"
        "cache (stats w') = cache (stats w)" "last_executed (stats w') \<noteq> None"
        using h w4 by simp_all
      ultimately show ?thesis by simp
    next
      case None
      then have r: "miss_branch E cd transforms post args kwargs w4 = (outcome, w')"
        using run dynamic g w4(3)
        by (simp add: create_callable_fn_def Let_def w3_def[symmetric] key_args_def[symmetric]
            w4_def[symmetric])
      note fr = miss_branch_frame[OF r, folded key_args_def]
      from fr[THEN conjunct2, THEN conjunct2, THEN conjunct2, THEN conjunct2, THEN conjunct2,
          THEN conjunct1]
      obtain es where es: "events w' = events w4 @ es"
        "\<forall>e \<in> set es. cache_event_ok cd args kwargs e \<and> (\<forall>a k. e \<noteq> Lookup a k)"
        "(\<exists>r. outcome = Inr r) \<and> cache_mode cd = DYNAMIC_STRIDES \<and>
          get_tracectx (contexts w4) = None \<longrightarrow>
          (\<exists>c tr. Store c tr key_args kwargs \<in> set es \<and>
             cache (stats w') = snd (cache_put (cache (stats w4)) c tr key_args kwargs))"
        by (elim exE conjE)
      have "\<exists>es. events w' = events w @ es \<and>
         (\<forall>e \<in> set es. cache_event_ok cd args kwargs e) \<and>
         (cache_mode cd = DYNAMIC_STRIDES \<longrightarrow> Lookup key_args kwargs \<in> set es) \<and>
         ((\<exists>r. outcome = Inr r) \<and> cache_mode cd = DYNAMIC_STRIDES \<and>
          fst (cache_get (cache (stats w)) key_args kwargs) = None \<and>
          get_tracectx (contexts w) = None \<longrightarrow>
            (\<exists>c tr. Store c tr key_args kwargs \<in> set es \<and>
               cache (stats w') = snd (cache_put (cache (stats w)) c tr key_args kwargs)))"
      proof (intro exI[of _ "Lookup key_args kwargs # es"] conjI)
        show "events w' = events w @ Lookup key_args kwargs # es"
          using es(1) w4(2) by simp
        show "\<forall>e \<in> set (Lookup key_args kwargs # es). cache_event_ok cd args kwargs e"
          using es(2) dynamic by (simp add: key_args_def)
        show "cache_mode cd = DYNAMIC_STRIDES \<longrightarrow>
            Lookup key_args kwargs \<in> set (Lookup key_args kwargs # es)"
          by simp
        show "(\<exists>r. outcome = Inr r) \<and> cache_mode cd = DYNAMIC_STRIDES \<and>
          fst (cache_get (cache (stats w)) key_args kwargs) = None \<and>
          get_tracectx (contexts w) = None \<longrightarrow>
            (\<exists>c tr. Store c tr key_args kwargs \<in> set (Lookup key_args kwargs # es) \<and>
               cache (stats w') = snd (cache_put (cache (stats w)) c tr key_args kwargs))"
        proof
          assume a: "(\<exists>r. outcome = Inr r) \<and> cache_mode cd = DYNAMIC_STRIDES \<and>
            fst (cache_get (cache (stats w)) key_args kwargs) = None \<and>
            get_tracectx (contexts w) = None"
          then obtain c tr where "Store c tr key_args kwargs \<in> set es"
            "cache (stats w') = snd (cache_put (cache (stats w4)) c tr key_args kwargs)"
            using es(3) w4(1) by auto
          then show "\<exists>c tr. Store c tr key_args kwargs \<in> set (Lookup key_args kwargs # es) \<and>
               cache (stats w') = snd (cache_put (cache (stats w)) c tr key_args kwargs)"
            using w4(3) by auto
        qed
      qed
      moreover have "contexts w' = contexts w" "calls (stats w') = calls (stats w) + 1"
        using fr[THEN conjunct1] w4
          fr[THEN conjunct2, THEN conjunct2, THEN conjunct2, THEN conjunct1]
        by simp_all
      moreover have "cache (stats w') = cache (stats w) \<or>
         cache_mode cd = DYNAMIC_STRIDES \<and>
         fst (cache_get (cache (stats w)) key_args kwargs) = None \<and>
         (\<exists>c tr. cache (stats w') = snd (cache_put (cache (stats w)) c tr key_args kwargs))"
        using fr[THEN conjunct2, THEN conjunct2, THEN conjunct2, THEN conjunct2, THEN conjunct1]
          w4(3) g None
        by simp
      moreover have "(\<exists>r. outcome = Inr r) \<and> get_tracectx (contexts w) = None
         \<longrightarrow> last_executed (stats w') \<noteq> None"
        using fr[THEN conjunct2, THEN conjunct2, THEN conjunct2, THEN conjunct2, THEN conjunct2,
          THEN conjunct2] w4(1)
        by simp
      ultimately show ?thesis by simp
    qed
  next
    case other
    then have r: "miss_branch E cd transforms post args kwargs w3 = (outcome, w')"
      using run by (auto simp: create_callable_fn_def Let_def w3_def)
    note fr = miss_branch_frame[OF r, folded key_args_def]
    from fr[THEN conjunct2, THEN conjunct2, THEN conjunct2, THEN conjunct2, THEN conjunct2,
        THEN conjunct1]
    obtain es where es: "events w' = events w3 @ es"
      "\<forall>e \<in> set es. cache_event_ok cd args kwargs e \<and> (\<forall>a k. e \<noteq> Lookup a k)"
      by (elim exE conjE)
    have "\<exists>es. events w' = events w @ es \<and>
       (\<forall>e \<in> set es. cache_event_ok cd args kwargs e) \<and>
       (cache_mode cd = DYNAMIC_STRIDES \<longrightarrow> Lookup key_args kwargs \<in> set es) \<and>
       ((\<exists>r. outcome = Inr r) \<and> cache_mode cd = DYNAMIC_STRIDES \<and>
        fst (cache_get (cache (stats w)) key_args kwargs) = None \<and>
        get_tracectx (contexts w) = None \<longrightarrow>
          (\<exists>c tr. Store c tr key_args kwargs \<in> set es \<and>
             cache (stats w') = snd (cache_put (cache (stats w)) c tr key_args kwargs)))"
      using es w3(2) other(2) by (intro exI[of _ es]) simp
    moreover have "contexts w' = contexts w" "calls (stats w') = calls (stats w) + 1"
      using fr[THEN conjunct1] w3
        fr[THEN conjunct2, THEN conjunct2, THEN conjunct2, THEN conjunct1]
      by simp_all
    moreover have "cache (stats w') = cache (stats w)"
      using fr[THEN conjunct2, THEN conjunct2, THEN conjunct2, THEN conjunct2, THEN conjunct1]
        w3(3) other(2)
      by simp
    moreover have "(\<exists>r. outcome = Inr r) \<and> get_tracectx (contexts w) = None
       \<longrightarrow> last_executed (stats w') \<noteq> None"
      using fr[THEN conjunct2, THEN conjunct2, THEN conjunct2, THEN conjunct2, THEN conjunct2,
        THEN conjunct2] w3(1)
      by simp
    ultimately show ?thesis by simp
  qed
  then show "contexts w' = contexts w"
    and "calls (stats w') = calls (stats w) + 1"
    and "cache (stats w') = cache (stats w) \<or>
     cache_mode cd = DYNAMIC_STRIDES \<and>
     fst (cache_get (cache (stats w)) (drop (num_constant_args cd) args) kwargs) = None \<and>
     (\<exists>c tr. cache (stats w') =
        snd (cache_put (cache (stats w)) c tr (drop (num_constant_args cd) args) kwargs))"
    and "\<exists>es. events w' = events w @ es \<and>
       (\<forall>e \<in> set es. cache_event_ok cd args kwargs e) \<and>
       (cache_mode cd = DYNAMIC_STRIDES \<longrightarrow>
          Lookup (drop (num_constant_args cd) args) kwargs \<in> set es) \<and>
       ((\<exists>r. outcome = Inr r) \<and> cache_mode cd = DYNAMIC_STRIDES \<and>
        fst (cache_get (cache (stats w)) (drop (num_constant_args cd) args) kwargs) = None \<and>
        get_tracectx (contexts w) = None \<longrightarrow>
          (\<exists>c tr. Store c tr (drop (num_constant_args cd) args) kwargs \<in> set es \<and>
             cache (stats w') =
               snd (cache_put (cache (stats w)) c tr (drop (num_constant_args cd) args) kwargs)))"
    and "(\<exists>r. outcome = Inr r) \<and> get_tracectx (contexts w) = None
       \<longrightarrow> last_executed (stats w') \<noteq> None"
    unfolding key_args_def by blast+
qed


subsection \<open>FIXED mode\<close>

lemma fixed_hit:
  assumes mode: "cache_mode cd = FIXED"
    and stored: "last_executed (stats w) = Some c"
    and run: "create_callable_fn E cd transforms post args kwargs w = (outcome, w')"
  shows "outcome = map_sum id Value (call_callable E c args kwargs (contexts w)) \<and>
    events w' = events w @ [Run c args kwargs] \<and>
    contexts w' = contexts w \<and>
    cache (stats w') = cache (stats w) \<and>
    cache_hits (stats w') = cache_hits (stats w) + 1 \<and>
    cache_misses (stats w') = cache_misses (stats w) \<and>
    calls (stats w') = calls (stats w) + 1 \<and>
    last_trace_tracing_start (stats w') = -1 \<and>
    last_trace_tracing_stop (stats w') = -1 \<and>
    last_executed (stats w') = Some c \<and>
    last_traces (stats w') = last_traces (stats w)"
proof -
  define w3 where "w3 = stamp E (\<lambda>t cs. cs\<lparr>last_trace_cache_start := t\<rparr>)
      (on_stats (\<lambda>cs. cs\<lparr>calls := calls cs + 1\<rparr>)
        (stamp E (\<lambda>t cs. cs\<lparr>last_trace_host_start := t\<rparr>) w))"
  have w3: "contexts w3 = contexts w" "events w3 = events w" "cache (stats w3) = cache (stats w)"
    "calls (stats w3) = calls (stats w) + 1" "last_executed (stats w3) = Some c"
    "cache_hits (stats w3) = cache_hits (stats w)"
    "cache_misses (stats w3) = cache_misses (stats w)"
    "last_traces (stats w3) = last_traces (stats w)"
    using stored by (simp_all add: w3_def step_simps)
  have r: "fixed_branch E args kwargs w3 = (outcome, w')"
    using run mode w3(5) by (simp add: create_callable_fn_def Let_def w3_def)
  show ?thesis
    using fixed_branch_hit[OF w3(5) r] w3 by simp
qed

lemma fixed_run_calls:
  assumes mode: "cache_mode cd = FIXED"
  shows "last_executed (stats w) = Some c \<Longrightarrow>
    events (run_calls E cd transforms post cs w) = events w @ map (\<lambda>(a, k). Run c a k) cs \<and>
    last_executed (stats (run_calls E cd transforms post cs w)) = Some c \<and>
    cache_hits (stats (run_calls E cd transforms post cs w)) =
      cache_hits (stats w) + int (length cs)"
proof (induction cs arbitrary: w)
  case Nil
  then show ?case by simp
next
  case (Cons x cs)
  obtain a k where x: "x = (a, k)" by (cases x)
  obtain out w1 where r: "create_callable_fn E cd transforms post a k w = (out, w1)"
    by (cases "create_callable_fn E cd transforms post a k w")
  note h = fixed_hit[OF mode Cons.prems r]
  have "last_executed (stats w1) = Some c" using h by simp
  from Cons.IH[OF this] show ?case
    using h r by (simp add: x)
qed

text \<open>
  Claim C4. In \<^verbatim>\<open>FIXED\<close> mode with a stored executable \<open>c\<close>, a call runs \<open>c\<close> on
  the arguments whatever they are and does nothing else (the only event is the run: no
  lookup, no trace): its outcome is the outcome of \<open>c\<close>, \<^verbatim>\<open>cache_hits\<close> grows by one,
  \<^verbatim>\<open>cache_misses\<close> stays, both tracing timestamps are \<open>-1\<close>, the stored executable
  and the cache stay. The outcome does not depend on what the cache dict holds. The
  same holds for every further call: any sequence of calls runs \<open>c\<close> each time.
\<close>

theorem fixed_mode_runs_stored_callable:
  assumes mode: "cache_mode cd = FIXED"
    and stored: "last_executed (stats w) = Some c"
    and run: "create_callable_fn E cd transforms post args kwargs w = (outcome, w')"
  shows "outcome = map_sum id Value (call_callable E c args kwargs (contexts w)) \<and>
    new_events w w' = [Run c args kwargs] \<and>
    cache_hits (stats w') = cache_hits (stats w) + 1 \<and>
    cache_misses (stats w') = cache_misses (stats w) \<and>
    last_trace_tracing_start (stats w') = -1 \<and>
    last_trace_tracing_stop (stats w') = -1 \<and>
    last_executed (stats w') = Some c \<and>
    cache (stats w') = cache (stats w) \<and>
    contexts w' = contexts w \<and>
    (\<forall>kc. fst (create_callable_fn E cd transforms post args kwargs
                (w\<lparr>stats := (stats w)\<lparr>cache := kc\<rparr>\<rparr>)) = outcome) \<and>
    new_events w' (run_calls E cd transforms post later w') = map (\<lambda>(a, k). Run c a k) later \<and>
    last_executed (stats (run_calls E cd transforms post later w')) = Some c \<and>
    cache_hits (stats (run_calls E cd transforms post later w')) =
      cache_hits (stats w') + int (length later)"
proof -
  note h = fixed_hit[OF mode stored run]
  have ev: "new_events w w' = [Run c args kwargs]"
    using h by (simp add: new_events_append)
  have indep: "fst (create_callable_fn E cd transforms post args kwargs
                (w\<lparr>stats := (stats w)\<lparr>cache := kc\<rparr>\<rparr>)) = outcome" for kc
  proof -
    obtain out2 w2 where r2: "create_callable_fn E cd transforms post args kwargs
        (w\<lparr>stats := (stats w)\<lparr>cache := kc\<rparr>\<rparr>) = (out2, w2)"
      by (cases "create_callable_fn E cd transforms post args kwargs
          (w\<lparr>stats := (stats w)\<lparr>cache := kc\<rparr>\<rparr>)")
    have "last_executed (stats (w\<lparr>stats := (stats w)\<lparr>cache := kc\<rparr>\<rparr>)) = Some c"
      using stored by simp
    from fixed_hit[OF mode this r2] show ?thesis
      using h r2 by simp
  qed
  have stored': "last_executed (stats w') = Some c"
    using h by simp
  note m = fixed_run_calls[OF mode stored', of E transforms post later]
  have "new_events w' (run_calls E cd transforms post later w') = map (\<lambda>(a, k). Run c a k) later"
    using m by (simp add: new_events_append)
  then show ?thesis
    using h ev indep m by simp
qed

theorem fixed_mode_runs_stored_callable_witness:
  "cache_mode (demo_cd FIXED) = FIXED \<and>
   last_executed (stats (demo_world\<lparr>stats := CompileStats_init\<lparr>last_executed := Some 5\<rparr>\<rparr>))
     = Some 5 \<and>
   fst (create_callable_fn demo_env (demo_cd FIXED) [] [] [demo_tensor False [1, 2]] []
          (demo_world\<lparr>stats := CompileStats_init\<lparr>last_executed := Some 5\<rparr>\<rparr>))
     = Inr (Value (Hashable (PyInt 5))) \<and>
   cache_hits (stats (snd (create_callable_fn demo_env (demo_cd FIXED) [] []
          [demo_tensor False [1, 2]] []
          (demo_world\<lparr>stats := CompileStats_init\<lparr>last_executed := Some 5\<rparr>\<rparr>)))) = 1 \<and>
   last_trace_tracing_start (stats (snd (create_callable_fn demo_env (demo_cd FIXED) [] []
          [demo_tensor False [1, 2]] []
          (demo_world\<lparr>stats := CompileStats_init\<lparr>last_executed := Some 5\<rparr>\<rparr>)))) = -1"
proof -
  have m: "cache_mode (demo_cd FIXED) = FIXED"
    by (simp add: demo_cd_def)
  have s: "last_executed (stats (demo_world\<lparr>stats := CompileStats_init\<lparr>last_executed := Some 5\<rparr>\<rparr>))
     = Some 5"
    by simp
  have c: "cache_hits (stats (demo_world\<lparr>stats := CompileStats_init\<lparr>last_executed := Some 5\<rparr>\<rparr>))
     = 0"
    by (simp add: CompileStats_init_def)
  have v: "call_callable demo_env 5 a k r = Inr (Hashable (PyInt 5))" for a k r
    by (simp add: demo_env_def)
  show ?thesis
    using fixed_mode_runs_stored_callable[OF m s surjective_pairing, of demo_env "[]" "[]"
        "[demo_tensor False [1, 2]]" "[]" "[]"] m s c v
    by (simp add: map_sum_def)
qed

text \<open>
  How the executable gets stored: a call in \<^verbatim>\<open>FIXED\<close> mode (in any mode) that returns,
  made outside an active trace, leaves an executable in \<^verbatim>\<open>cs.last_executed\<close>.
\<close>

lemma successful_call_records_executable:
  assumes "create_callable_fn E cd transforms post args kwargs w = (Inr r, w')"
    and "get_tracectx (contexts w) = None"
  shows "last_executed (stats w') \<noteq> None"
  using create_callable_fn_frame(5)[OF assms(1)] assms(2) by simp

subsection \<open>The cache dict outside DYNAMIC\_STRIDES\<close>

lemma create_callable_fn_cache_other_modes:
  assumes "cache_mode cd \<noteq> DYNAMIC_STRIDES"
  shows "cache (stats (snd (create_callable_fn E cd transforms post args kwargs w))) =
    cache (stats w)"
  using create_callable_fn_frame(3)[OF surjective_pairing, of E cd transforms post args kwargs w] assms
  by simp

lemma run_calls_cache_other_modes:
  assumes "cache_mode cd \<noteq> DYNAMIC_STRIDES"
  shows "cache (stats (run_calls E cd transforms post cs w)) = cache (stats w)"
proof (induction cs arbitrary: w)
  case Nil
  then show ?case by simp
next
  case (Cons x cs)
  obtain a k where x: "x = (a, k)" by (cases x)
  show ?case
    using Cons.IH create_callable_fn_cache_other_modes[OF assms] by (simp add: x)
qed

text \<open>
  Claim C10. A call in \<^verbatim>\<open>FIXED\<close> or \<^verbatim>\<open>ALWAYS_TRACE\<close> mode leaves \<^verbatim>\<open>cs.cache\<close> as it
  was and makes no call of \<^verbatim>\<open>cache_get\<close> or \<^verbatim>\<open>cache_put\<close>; so does any sequence of
  calls, and starting from fresh statistics the cache dict stays empty.
\<close>

theorem cache_dict_unchanged_in_fixed_and_always_trace:
  assumes "cache_mode cd = FIXED \<or> cache_mode cd = ALWAYS_TRACE"
  shows "cache (stats (snd (create_callable_fn E cd transforms post args kwargs w))) =
      cache (stats w) \<and>
    (\<forall>e \<in> set (new_events w (snd (create_callable_fn E cd transforms post args kwargs w))).
       \<not> is_cache_event e) \<and>
    cache (stats (run_calls E cd transforms post cs w)) = cache (stats w) \<and>
    (stats w = CompileStats_init \<longrightarrow>
       cache (stats (run_calls E cd transforms post cs w)) = Map.empty)"
proof -
  have nd: "cache_mode cd \<noteq> DYNAMIC_STRIDES"
    using assms by auto
  obtain es where es:
    "events (snd (create_callable_fn E cd transforms post args kwargs w)) = events w @ es"
    "\<forall>e \<in> set es. cache_event_ok cd args kwargs e"
    using create_callable_fn_frame(4)[OF surjective_pairing, of E cd transforms post args kwargs w]
    by blast
  have "\<not> is_cache_event e" if "e \<in> set es" for e
    using es(2) that nd by (cases e) auto
  then have "\<forall>e \<in> set (new_events w (snd (create_callable_fn E cd transforms post args kwargs w))).
       \<not> is_cache_event e"
    using es(1) by (simp add: new_events_append)
  moreover have "stats w = CompileStats_init \<longrightarrow>
       cache (stats (run_calls E cd transforms post cs w)) = Map.empty"
    using run_calls_cache_other_modes[OF nd, of E transforms post cs w]
    by (simp add: CompileStats_init_def)
  ultimately show ?thesis
    using create_callable_fn_cache_other_modes[OF nd] run_calls_cache_other_modes[OF nd]
    by simp
qed

theorem cache_dict_unchanged_in_fixed_and_always_trace_witness:
  "cache (stats (snd (create_callable_fn demo_env (demo_cd ALWAYS_TRACE) [] []
       [demo_tensor False [1, 2]] [] demo_world))) = cache (stats demo_world) \<and>
   cache (stats (run_calls demo_env (demo_cd FIXED) [] []
       [([demo_tensor False [1, 2]], []), ([demo_tensor False [1, 2, 3]], [])] demo_world))
     = Map.empty"
proof -
  have a: "cache_mode (demo_cd ALWAYS_TRACE) = FIXED \<or>
      cache_mode (demo_cd ALWAYS_TRACE) = ALWAYS_TRACE"
    by (simp add: demo_cd_def)
  have f: "cache_mode (demo_cd FIXED) = FIXED \<or> cache_mode (demo_cd FIXED) = ALWAYS_TRACE"
    by (simp add: demo_cd_def)
  have i: "stats demo_world = CompileStats_init"
    by (simp add: demo_world_def)
  show ?thesis
    using cache_dict_unchanged_in_fixed_and_always_trace[OF a, of demo_env "[]" "[]"
        "[demo_tensor False [1, 2]]" "[]" demo_world "[]"]
      cache_dict_unchanged_in_fixed_and_always_trace[OF f, of demo_env "[]" "[]" "[]" "[]"
        demo_world "[([demo_tensor False [1, 2]], []), ([demo_tensor False [1, 2, 3]], [])]"]
      i
    by blast
qed

subsection \<open>DYNAMIC\_STRIDES mode\<close>

text \<open>
  Claim C5. In \<^verbatim>\<open>DYNAMIC_STRIDES\<close> mode every call of \<^verbatim>\<open>cache_get\<close> and of
  \<^verbatim>\<open>cache_put\<close> that a call of the compiled function makes receives the positional
  arguments without their first \<^verbatim>\<open>num_constant_args\<close> items and all the keyword
  arguments. There is one lookup in every call; a call that misses, is made outside an
  active trace and returns makes a store (on the autograd path and on the trace path
  alike), and the cache becomes what \<^verbatim>\<open>cache_put\<close> makes of it for those arguments.
  With \<open>args = prefix @ rest\<close> and a prefix of \<^verbatim>\<open>num_constant_args\<close> items, the
  arguments of the lookup are \<open>rest\<close>.
\<close>

theorem dynamic_strides_key_skips_constant_args:
  assumes mode: "cache_mode cd = DYNAMIC_STRIDES"
    and run: "create_callable_fn E cd transforms post args kwargs w = (outcome, w')"
  shows "(\<forall>e \<in> set (new_events w w'). cache_event_ok cd args kwargs e) \<and>
    Lookup (drop (num_constant_args cd) args) kwargs \<in> set (new_events w w') \<and>
    (cache (stats w') = cache (stats w) \<or>
     (\<exists>c tr. cache (stats w') =
        snd (cache_put (cache (stats w)) c tr (drop (num_constant_args cd) args) kwargs))) \<and>
    ((\<exists>r. outcome = Inr r) \<and>
     fst (cache_get (cache (stats w)) (drop (num_constant_args cd) args) kwargs) = None \<and>
     get_tracectx (contexts w) = None \<longrightarrow>
       (\<exists>c tr. Store c tr (drop (num_constant_args cd) args) kwargs \<in> set (new_events w w') \<and>
          cache (stats w') =
            snd (cache_put (cache (stats w)) c tr (drop (num_constant_args cd) args) kwargs))) \<and>
    (\<forall>prefix rest. args = prefix @ rest \<and> length prefix = num_constant_args cd \<longrightarrow>
       Lookup rest kwargs \<in> set (new_events w w'))"
proof -
  obtain es where es: "events w' = events w @ es"
    "\<forall>e \<in> set es. cache_event_ok cd args kwargs e"
    "cache_mode cd = DYNAMIC_STRIDES \<longrightarrow>
       Lookup (drop (num_constant_args cd) args) kwargs \<in> set es"
    "(\<exists>r. outcome = Inr r) \<and> cache_mode cd = DYNAMIC_STRIDES \<and>
        fst (cache_get (cache (stats w)) (drop (num_constant_args cd) args) kwargs) = None \<and>
        get_tracectx (contexts w) = None \<longrightarrow>
          (\<exists>c tr. Store c tr (drop (num_constant_args cd) args) kwargs \<in> set es \<and>
             cache (stats w') =
               snd (cache_put (cache (stats w)) c tr (drop (num_constant_args cd) args) kwargs))"
    using create_callable_fn_frame(4)[OF run] by (elim exE conjE)
  have ne: "new_events w w' = es"
    using es(1) by (rule new_events_append)
  have look: "Lookup (drop (num_constant_args cd) args) kwargs \<in> set es"
    using es(3) mode by simp
  have pre: "\<forall>prefix rest. args = prefix @ rest \<and> length prefix = num_constant_args cd \<longrightarrow>
       Lookup rest kwargs \<in> set es"
    using look by auto
  have c: "cache (stats w') = cache (stats w) \<or>
     (\<exists>c tr. cache (stats w') =
        snd (cache_put (cache (stats w)) c tr (drop (num_constant_args cd) args) kwargs))"
    using create_callable_fn_frame(3)[OF run] by blast
  show ?thesis
    unfolding ne using es(2) look es(4) mode c pre by simp
qed

theorem dynamic_strides_key_skips_constant_args_witness:
  "Lookup [demo_tensor False [1, 2]] [(''scale'', Hashable (PyInt 2))]
     \<in> set (new_events demo_world
         (snd (create_callable_fn demo_env (demo_cd DYNAMIC_STRIDES) [] []
            [Unhashable 0, demo_tensor False [1, 2]] [(''scale'', Hashable (PyInt 2))]
            demo_world))) \<and>
   (\<exists>c tr. cache (stats (snd (create_callable_fn demo_env (demo_cd DYNAMIC_STRIDES) [] []
            [Unhashable 0, demo_tensor False [1, 2]] [(''scale'', Hashable (PyInt 2))]
            demo_world))) =
      snd (cache_put (cache (stats demo_world)) c tr [demo_tensor False [1, 2]]
             [(''scale'', Hashable (PyInt 2))]))"
proof -
  have m: "cache_mode (demo_cd DYNAMIC_STRIDES) = DYNAMIC_STRIDES"
    by (simp add: demo_cd_def)
  have n: "drop (num_constant_args (demo_cd DYNAMIC_STRIDES))
      [Unhashable 0, demo_tensor False [1, 2]] = [demo_tensor False [1, 2]]"
    by (simp add: demo_cd_def)
  have miss: "fst (cache_get (cache (stats demo_world)) [demo_tensor False [1, 2]]
      [(''scale'', Hashable (PyInt 2))]) = None"
    by (simp add: demo_world_def CompileStats_init_def cache_get_def)
  have t: "get_tracectx (contexts demo_world) = None"
    by (simp add: demo_world_def get_tracectx_def)
  have ok: "\<exists>r. fst (create_callable_fn demo_env (demo_cd DYNAMIC_STRIDES) [] []
            [Unhashable 0, demo_tensor False [1, 2]] [(''scale'', Hashable (PyInt 2))]
            demo_world) = Inr r"
    by (simp add: create_callable_fn_def miss_branch_def trace_branch_def trace_fn_def
        trace_try_def traced_steps_def execute_trace_def then_exn_def tree_flatten_def
        any_requires_grad_def demo_tensor_def demo_env_def demo_cd_def demo_world_def
        CompileStats_init_def cache_get_def make_cache_key_char indeterminate_call_def
        default_trace_options_def langctx_for_def get_langctx_def get_tracectx_def
        set_langctx_def set_tracectx_def reset_langctx_def reset_tracectx_def
        step_simps Let_def)
  show ?thesis
    using dynamic_strides_key_skips_constant_args[OF m surjective_pairing,
        where E = demo_env and transforms = "[]" and post = "[]"
          and args = "[Unhashable 0, demo_tensor False [1, 2]]"
          and kwargs = "[(''scale'', Hashable (PyInt 2))]" and w = demo_world]
      ok miss t
    unfolding n by blast
qed

lemma cache_put_keeps_entries:
  "kc K = Some v \<Longrightarrow> kc (make_cache_key a k) = None \<Longrightarrow> snd (cache_put kc c tr a k) K = Some v"
  by (auto simp: cache_put_def Let_def)

lemma create_callable_fn_keeps_entries:
  assumes "create_callable_fn E cd transforms post args kwargs w = (outcome, w')"
    and "cache (stats w) K = Some v"
  shows "cache (stats w') K = Some v"
  using create_callable_fn_frame(3)[OF assms(1)] assms(2)
  by (auto simp: cache_get_fst_None cache_put_keeps_entries)

lemma run_calls_keeps_entries:
  "cache (stats w) K = Some v \<Longrightarrow> cache (stats (run_calls E cd transforms post cs w)) K = Some v"
proof (induction cs arbitrary: w)
  case Nil
  then show ?case by simp
next
  case (Cons x cs)
  obtain a k where x: "x = (a, k)" by (cases x)
  have "cache (stats (snd (create_callable_fn E cd transforms post a k w))) K = Some v"
    using create_callable_fn_keeps_entries[OF surjective_pairing Cons.prems] .
  from Cons.IH[OF this] show ?case by (simp add: x)
qed

lemma dynamic_hit:
  assumes mode: "cache_mode cd = DYNAMIC_STRIDES"
    and entry: "cache (stats w) (make_cache_key (drop (num_constant_args cd) args) kwargs)
        = Some (c, tr)"
    and run: "create_callable_fn E cd transforms post args kwargs w = (outcome, w')"
  shows "outcome = map_sum id Value (call_callable E c args kwargs (contexts w)) \<and>
    events w' = events w @ [Lookup (drop (num_constant_args cd) args) kwargs, Run c args kwargs] \<and>
    contexts w' = contexts w \<and>
    cache (stats w') = cache (stats w) \<and>
    cache_hits (stats w') = cache_hits (stats w) + 1 \<and>
    cache_misses (stats w') = cache_misses (stats w) \<and>
    last_trace_tracing_start (stats w') = -1 \<and>
    last_trace_tracing_stop (stats w') = -1 \<and>
    last_executed (stats w') = Some c"
proof -
  define w4 where "w4 = emit (Lookup (drop (num_constant_args cd) args) kwargs)
      (stamp E (\<lambda>t cs. cs\<lparr>last_trace_cache_start := t\<rparr>)
        (on_stats (\<lambda>cs. cs\<lparr>calls := calls cs + 1\<rparr>)
          (stamp E (\<lambda>t cs. cs\<lparr>last_trace_host_start := t\<rparr>) w)))"
  have w4: "contexts w4 = contexts w"
    "events w4 = events w @ [Lookup (drop (num_constant_args cd) args) kwargs]"
    "cache (stats w4) = cache (stats w)"
    "cache_hits (stats w4) = cache_hits (stats w)"
    "cache_misses (stats w4) = cache_misses (stats w)"
    by (simp_all add: w4_def step_simps)
  have g: "cache_get (cache (stats w4)) (drop (num_constant_args cd) args) kwargs = (Some c, tr)"
    using entry w4(3) by (simp add: cache_get_def)
  have r: "dynamic_hit_branch E c args kwargs w4 = (outcome, w')"
    using run mode g by (simp add: create_callable_fn_def Let_def w4_def[symmetric])
  show ?thesis
    using dynamic_hit_branch_hit[OF r] w4 by simp
qed

text \<open>
  Claim C1. In \<^verbatim>\<open>DYNAMIC_STRIDES\<close> mode, let \<^verbatim>\<open>cache_put\<close> have stored \<open>(c, traces)\<close>
  for the arguments \<open>a\<close>, \<open>k\<close>. Then \<^verbatim>\<open>cache_get\<close> on arguments with an equal
  fingerprint returns \<open>(c, traces)\<close>; and after any further calls of the compiled
  function, a call whose arguments (without the constant prefix) have that fingerprint
  looks the entry up and runs \<open>c\<close>: these are its only two events (no trace is
  built), its outcome is the outcome of \<open>c\<close>, \<^verbatim>\<open>cache_hits\<close> grows by one and
  \<^verbatim>\<open>cache_misses\<close> stays.
\<close>

theorem dynamic_strides_hit_runs_stored_executable:
  assumes mode: "cache_mode cd = DYNAMIC_STRIDES"
    and put: "cache_put kc0 c traces a k = (True, kc)"
    and st: "cache (stats w) = kc"
    and key: "make_cache_key (drop (num_constant_args cd) args) kwargs = make_cache_key a k"
    and run: "create_callable_fn E cd transforms post args kwargs
                (run_calls E cd transforms post between w) = (outcome, w')"
  shows "cache_get kc (drop (num_constant_args cd) args) kwargs = (Some c, traces) \<and>
    outcome = map_sum id Value
      (call_callable E c args kwargs (contexts (run_calls E cd transforms post between w))) \<and>
    new_events (run_calls E cd transforms post between w) w' =
      [Lookup (drop (num_constant_args cd) args) kwargs, Run c args kwargs] \<and>
    cache_hits (stats w') =
      cache_hits (stats (run_calls E cd transforms post between w)) + 1 \<and>
    cache_misses (stats w') = cache_misses (stats (run_calls E cd transforms post between w)) \<and>
    last_trace_tracing_start (stats w') = -1 \<and>
    last_trace_tracing_stop (stats w') = -1 \<and>
    last_executed (stats w') = Some c"
proof -
  have kc: "kc (make_cache_key a k) = Some (c, traces)"
    using put by (auto simp: cache_put_def Let_def split: if_splits)
  then have g: "cache_get kc (drop (num_constant_args cd) args) kwargs = (Some c, traces)"
    using key by (simp add: cache_get_def)
  have "cache (stats (run_calls E cd transforms post between w))
      (make_cache_key (drop (num_constant_args cd) args) kwargs) = Some (c, traces)"
    using run_calls_keeps_entries[of w "make_cache_key a k" "(c, traces)"] kc st key by simp
  note h = dynamic_hit[OF mode this run]
  have "new_events (run_calls E cd transforms post between w) w' =
      [Lookup (drop (num_constant_args cd) args) kwargs, Run c args kwargs]"
    using h by (simp add: new_events_append)
  then show ?thesis
    using g h by simp
qed

theorem dynamic_strides_hit_runs_stored_executable_witness:
  "cache_get (snd (cache_put Map.empty 5 None [demo_tensor False [1, 2]] []))
     [demo_tensor False [3, 4]] [] = (Some 5, None) \<and>
   fst (create_callable_fn demo_env (demo_cd DYNAMIC_STRIDES) [] []
     [Unhashable 0, demo_tensor False [3, 4]] []
     (demo_world\<lparr>stats := CompileStats_init
        \<lparr>cache := snd (cache_put Map.empty 5 None [demo_tensor False [1, 2]] [])\<rparr>\<rparr>))
     = Inr (Value (Hashable (PyInt 5))) \<and>
   cache_hits (stats (snd (create_callable_fn demo_env (demo_cd DYNAMIC_STRIDES) [] []
     [Unhashable 0, demo_tensor False [3, 4]] []
     (demo_world\<lparr>stats := CompileStats_init
        \<lparr>cache := snd (cache_put Map.empty 5 None [demo_tensor False [1, 2]] [])\<rparr>\<rparr>)))) = 1 \<and>
   cache_misses (stats (snd (create_callable_fn demo_env (demo_cd DYNAMIC_STRIDES) [] []
     [Unhashable 0, demo_tensor False [3, 4]] []
     (demo_world\<lparr>stats := CompileStats_init
        \<lparr>cache := snd (cache_put Map.empty 5 None [demo_tensor False [1, 2]] [])\<rparr>\<rparr>)))) = 0"
proof -
  define kc where "kc = snd (cache_put Map.empty 5 None [demo_tensor False [1, 2]] [])"
  define w where "w = demo_world\<lparr>stats := CompileStats_init\<lparr>cache := kc\<rparr>\<rparr>"
  have m: "cache_mode (demo_cd DYNAMIC_STRIDES) = DYNAMIC_STRIDES"
    by (simp add: demo_cd_def)
  have p: "cache_put Map.empty 5 None [demo_tensor False [1, 2]] [] = (True, kc)"
    by (simp add: kc_def cache_put_def make_cache_key_char indeterminate_call_def
        demo_tensor_def)
  have s: "cache (stats w) = kc"
    by (simp add: w_def)
  have k: "make_cache_key (drop (num_constant_args (demo_cd DYNAMIC_STRIDES))
        [Unhashable 0, demo_tensor False [3, 4]]) [] =
      make_cache_key [demo_tensor False [1, 2]] []"
    by (simp add: demo_cd_def make_cache_key_char indeterminate_call_def demo_tensor_def)
  have r: "create_callable_fn demo_env (demo_cd DYNAMIC_STRIDES) [] []
        [Unhashable 0, demo_tensor False [3, 4]] []
        (run_calls demo_env (demo_cd DYNAMIC_STRIDES) [] [] [] w) =
      (fst (create_callable_fn demo_env (demo_cd DYNAMIC_STRIDES) [] []
        [Unhashable 0, demo_tensor False [3, 4]] [] w),
       snd (create_callable_fn demo_env (demo_cd DYNAMIC_STRIDES) [] []
        [Unhashable 0, demo_tensor False [3, 4]] [] w))"
    by simp
  have d: "drop (num_constant_args (demo_cd DYNAMIC_STRIDES))
      [Unhashable 0, demo_tensor False [3, 4]] = [demo_tensor False [3, 4]]"
    by (simp add: demo_cd_def)
  have c: "call_callable demo_env 5 x y z = Inr (Hashable (PyInt 5))" for x y z
    by (simp add: demo_env_def)
  have z: "cache_hits (stats w) = 0" "cache_misses (stats w) = 0"
    by (simp_all add: w_def CompileStats_init_def)
  show ?thesis
    using dynamic_strides_hit_runs_stored_executable[OF m p s k r]
    unfolding d kc_def[symmetric] w_def[symmetric]
    by (simp add: c z map_sum_def)
qed


subsection \<open>No entry under an indeterminate fingerprint\<close>

lemma create_callable_fn_cache_reachable:
  assumes "cache_reachable (cache (stats w))"
  shows "cache_reachable (cache (stats (snd (create_callable_fn E cd transforms post args kwargs w))))"
  using create_callable_fn_frame(3)[OF surjective_pairing, of E cd transforms post args kwargs w]
    assms
  by (auto intro: cache_reachable.put)

lemma run_calls_cache_reachable:
  "cache_reachable (cache (stats w)) \<Longrightarrow>
   cache_reachable (cache (stats (run_calls E cd transforms post cs w)))"
proof (induction cs arbitrary: w)
  case Nil
  then show ?case by simp
next
  case (Cons x cs)
  obtain a k where x: "x = (a, k)" by (cases x)
  show ?case
    using Cons.IH[OF create_callable_fn_cache_reachable[OF Cons.prems]] by (simp add: x)
qed

text \<open>
  Claim C2. When an argument or a keyword value has no fingerprint rule (a NumPy
  array, an unhandled container, an object that is not hashable), also inside a
  sequence, \<^verbatim>\<open>_make_cache_key\<close> returns \<^verbatim>\<open>None\<close>, and \<^verbatim>\<open>cache_put\<close> returns
  \<^verbatim>\<open>False\<close> and leaves the cache as it was. On a cache of a compiled function (built
  from the empty dict by \<^verbatim>\<open>cache_put\<close>) \<^verbatim>\<open>cache_get\<close> returns \<^verbatim>\<open>(None, None)\<close> and no
  entry of the cache has the key \<^verbatim>\<open>None\<close>; this is so for the cache of a compiled
  function after any sequence of calls from fresh statistics. Both functions return:
  the model has no exception because the source raises none here.
\<close>

theorem indeterminate_arguments_miss_and_are_not_stored:
  assumes "indeterminate_call args kwargs"
  shows "make_cache_key args kwargs = ONone \<and>
    cache_put kc fn traces args kwargs = (False, kc) \<and>
    (cache_reachable kc \<longrightarrow>
       cache_get kc args kwargs = (None, None) \<and> ONone \<notin> dom kc) \<and>
    (stats w = CompileStats_init \<longrightarrow>
       cache_get (cache (stats (run_calls E cd transforms post cs w))) args kwargs
         = (None, None) \<and>
       ONone \<notin> dom (cache (stats (run_calls E cd transforms post cs w))))"
proof -
  have key: "make_cache_key args kwargs = ONone"
    using assms by (simp add: make_cache_key_ONone)
  have r: "cache_get c args kwargs = (None, None) \<and> ONone \<notin> dom c"
    if "cache_reachable c" for c
  proof -
    have "c ONone = None"
      using that by (rule cache_reachable_no_None_key)
    then show ?thesis
      using key by (simp add: cache_get_def dom_def)
  qed
  have "cache_reachable (cache (stats (run_calls E cd transforms post cs w)))"
    if "stats w = CompileStats_init"
    using that run_calls_cache_reachable[of w E cd transforms post cs]
    by (simp add: CompileStats_init_def cache_reachable.empty)
  then show ?thesis
    using key r cache_put_indeterminate[OF assms] by blast
qed

theorem indeterminate_arguments_miss_and_are_not_stored_witness:
  "make_cache_key [Hashable (PyInt 1), PySequence PyList [NDArray [0, 1]]] [] = ONone \<and>
   cache_get (snd (cache_put Map.empty 7 None [Hashable (PyInt 1)] []))
     [Hashable (PyInt 1), PySequence PyList [NDArray [0, 1]]] [] = (None, None) \<and>
   cache_put (snd (cache_put Map.empty 7 None [Hashable (PyInt 1)] [])) 8 None
     [Hashable (PyInt 1), PySequence PyList [NDArray [0, 1]]] []
     = (False, snd (cache_put Map.empty 7 None [Hashable (PyInt 1)] [])) \<and>
   ONone \<notin> dom (snd (cache_put Map.empty 7 None [Hashable (PyInt 1)] [])) \<and>
   ONone \<notin> dom (cache (stats (run_calls demo_env (demo_cd DYNAMIC_STRIDES) [] []
     [([Unhashable 0, demo_tensor False [1, 2]], []), ([Unhashable 0, NDArray [0, 1]], [])]
     demo_world)))"
proof -
  have r: "cache_reachable (snd (cache_put Map.empty 7 None [Hashable (PyInt 1)] []))"
    by (rule cache_reachable.put) (rule cache_reachable.empty)
  have i: "indeterminate_call [Hashable (PyInt 1), PySequence PyList [NDArray [0, 1]]] []"
    by (simp add: indeterminate_call_def)
  have s: "stats demo_world = CompileStats_init"
    by (simp add: demo_world_def)
  show ?thesis
    using indeterminate_arguments_miss_and_are_not_stored[OF i,
        where kc = "snd (cache_put Map.empty 7 None [Hashable (PyInt 1)] [])" and fn = 8
          and traces = None and w = demo_world and E = demo_env
          and cd = "demo_cd DYNAMIC_STRIDES" and transforms = "[]" and post = "[]"
          and cs = "[([Unhashable 0, demo_tensor False [1, 2]], []),
                     ([Unhashable 0, NDArray [0, 1]], [])]"]
      r s
    by blast
qed

subsection \<open>Calls under an active trace\<close>




subsection \<open>Tracing restores the contexts\<close>

text \<open>
  Claim C6. Whatever the options, the arguments and the outcome, \<^verbatim>\<open>_trace\<close> leaves the
  registry of contexts as it found it. When it inlines (a trace is active and
  \<^verbatim>\<open>inline_trace\<close> holds) the callable runs with the language context set, and its
  result or exception is the outcome. Otherwise the callable runs with the language
  context and the new trace set (a read of the active trace gives the new trace), and
  an exception that it raises is the outcome of \<^verbatim>\<open>_trace\<close>. The events show the
  path taken.
\<close>

theorem trace_restores_contexts_and_propagates_exceptions:
  "contexts (snd (trace_fn E opts compile_data f args kwargs w)) = contexts w \<and>
   (get_tracectx (contexts w) \<noteq> None \<and> inline_trace opts \<longrightarrow>
      fst (trace_fn E opts compile_data f args kwargs w) =
        map_sum id Value
          (call_function E f args kwargs
             (snd (set_langctx (langctx_for compile_data (contexts w)) (contexts w)))) \<and>
      new_events w (snd (trace_fn E opts compile_data f args kwargs w)) =
        [TraceCall, InlinedCall]) \<and>
   (\<not> (get_tracectx (contexts w) \<noteq> None \<and> inline_trace opts) \<and>
    new_TraceCtx E f = Inr trc \<and>
    unpack_inputs E f trc args kwargs (rename_proxies opts) = Inr proxies \<and>
    (if insert_ddp_syncs opts then ddp_sync E proxies else Inr proxies) = Inr synced \<and>
    call_function E f (fst synced) (snd synced)
      (snd (set_tracectx trc
         (snd (set_langctx (langctx_for compile_data (contexts w)) (contexts w))))) = Inl e \<longrightarrow>
      fst (trace_fn E opts compile_data f args kwargs w) = Inl e \<and>
      new_events w (snd (trace_fn E opts compile_data f args kwargs w)) =
        [TraceCall, NewTrace trc, TracedCall]) \<and>
   get_langctx (snd (set_langctx (langctx_for compile_data (contexts w)) (contexts w))) =
     langctx_for compile_data (contexts w) \<and>
   get_tracectx (snd (set_tracectx trc
         (snd (set_langctx (langctx_for compile_data (contexts w)) (contexts w))))) = Some trc"
proof -
  note fr = trace_fn_frame[OF surjective_pairing, of E opts compile_data f args kwargs w]
  have inl: "fst (trace_fn E opts compile_data f args kwargs w) =
        map_sum id Value
          (call_function E f args kwargs
             (snd (set_langctx (langctx_for compile_data (contexts w)) (contexts w)))) \<and>
      new_events w (snd (trace_fn E opts compile_data f args kwargs w)) =
        [TraceCall, InlinedCall]"
    if "get_tracectx (contexts w) \<noteq> None \<and> inline_trace opts"
    using that fr(4) trace_fn_inlined[of w opts E compile_data f args kwargs]
    by (simp add: new_events_append)
  have g: "get_tracectx (snd (set_langctx l (contexts w))) = get_tracectx (contexts w)" for l
    by (simp add: set_langctx_def get_tracectx_def)
  have trc: "fst (trace_fn E opts compile_data f args kwargs w) = Inl e \<and>
      new_events w (snd (trace_fn E opts compile_data f args kwargs w)) =
        [TraceCall, NewTrace trc, TracedCall]"
    if a: "\<not> (get_tracectx (contexts w) \<noteq> None \<and> inline_trace opts) \<and>
      new_TraceCtx E f = Inr trc \<and>
      unpack_inputs E f trc args kwargs (rename_proxies opts) = Inr proxies \<and>
      (if insert_ddp_syncs opts then ddp_sync E proxies else Inr proxies) = Inr synced \<and>
      call_function E f (fst synced) (snd synced)
        (snd (set_tracectx trc
           (snd (set_langctx (langctx_for compile_data (contexts w)) (contexts w))))) = Inl e"
  proof -
    have "traced_steps E opts f trc args kwargs
        (snd (set_tracectx trc
           (snd (set_langctx (langctx_for compile_data (contexts w)) (contexts w))))) = Inl e"
      using a by (simp add: traced_steps_def then_exn_def)
    then have "fst (trace_fn E opts compile_data f args kwargs w) = Inl e"
      using a g
      by (auto simp: trace_fn_outcome trace_try_def Let_def step_simps split: prod.splits)
    moreover have "new_events w (snd (trace_fn E opts compile_data f args kwargs w)) =
        [TraceCall, NewTrace trc, TracedCall]"
      using a fr(4) by (auto simp: new_events_append)
    ultimately show ?thesis by simp
  qed
  have "get_langctx (snd (set_langctx (langctx_for compile_data (contexts w)) (contexts w))) =
     langctx_for compile_data (contexts w)"
    by (simp add: set_langctx_def get_langctx_def)
  moreover have "get_tracectx (snd (set_tracectx trc
         (snd (set_langctx (langctx_for compile_data (contexts w)) (contexts w))))) = Some trc"
    by (simp add: set_tracectx_def get_tracectx_def)
  ultimately show ?thesis
    using fr(3) inl trc by blast
qed

theorem trace_restores_contexts_and_propagates_exceptions_witness:
  "fst (trace_fn raising_env default_trace_options None 0 [demo_tensor False [1, 2]] []
     demo_world) = Inl (Raised 7) \<and>
   contexts (snd (trace_fn raising_env default_trace_options None 0 [demo_tensor False [1, 2]] []
     demo_world)) = contexts demo_world \<and>
   fst (trace_fn raising_env default_trace_options None 0 [demo_tensor False [1, 2]] []
     active_world) = Inl (Raised 7) \<and>
   contexts (snd (trace_fn raising_env default_trace_options None 0 [demo_tensor False [1, 2]] []
     active_world)) = contexts active_world"
proof -
  have n: "get_tracectx (contexts demo_world) = None"
    by (simp add: demo_world_def get_tracectx_def)
  have a: "get_tracectx (contexts active_world) \<noteq> None"
    "inline_trace default_trace_options"
    by (simp_all add: active_world_def get_tracectx_def default_trace_options_def)
  have e: "new_TraceCtx raising_env 0 = Inr 1"
    "unpack_inputs raising_env 0 1 [demo_tensor False [1, 2]] []
       (rename_proxies default_trace_options) = Inr ([demo_tensor False [1, 2]], [])"
    "(if insert_ddp_syncs default_trace_options
      then ddp_sync raising_env ([demo_tensor False [1, 2]], [])
      else Inr ([demo_tensor False [1, 2]], [])) = Inr ([demo_tensor False [1, 2]], [])"
    "call_function raising_env x y z r = Inl (Raised 7)" for x y z r
    by (simp_all add: raising_env_def demo_env_def default_trace_options_def)
  show ?thesis
    using trace_restores_contexts_and_propagates_exceptions
        [where E = raising_env and opts = default_trace_options and compile_data = None
          and f = 0 and args = "[demo_tensor False [1, 2]]" and kwargs = "[]"
          and w = demo_world and trc = 1 and proxies = "([demo_tensor False [1, 2]], [])"
          and synced = "([demo_tensor False [1, 2]], [])" and e = "Raised 7"]
      trace_restores_contexts_and_propagates_exceptions
        [where E = raising_env and opts = default_trace_options and compile_data = None
          and f = 0 and args = "[demo_tensor False [1, 2]]" and kwargs = "[]"
          and w = active_world]
      n a e
    by (simp add: map_sum_def)
qed


section \<open>Properties of the module adapter\<close>

lemma param_index_Some:
  "param_index names k = Some i \<Longrightarrow> i < length names \<and> names ! i = k"
proof -
  assume "param_index names k = Some i"
  then have "(k, i) \<in> set (zip names [0..<length names])"
    by (auto simp: param_index_def dest: map_of_SomeD)
  then show ?thesis
    by (auto simp: set_zip)
qed

lemma lookup_all_Inr:
  "lookup_all d ks = Inr js \<Longrightarrow>
   length js = length ks \<and> (\<forall>i < length ks. d (ks ! i) = Some (js ! i))"
proof (induction ks arbitrary: js)
  case Nil
  then show ?case by simp
next
  case (Cons k ks)
  then show ?case
    by (auto simp: nth_Cons split: option.splits sum.splits nat.splits)
qed

lemma indexes_ok_names:
  assumes "indexes_ok self"
  shows "length (additional_return_param_idxes self) = length (additional_return_names self)"
    and "i < length (additional_return_names self) \<Longrightarrow>
      additional_return_param_idxes self ! i < length (additional_param_names self) \<and>
      additional_param_names self ! (additional_return_param_idxes self ! i) =
        additional_return_names self ! i"
  using lookup_all_Inr[OF assms[unfolded indexes_ok_def]] param_index_Some
  by auto

lemma TOM_init_indexes_ok: "TOM_init m pn pv rn = Inr self \<Longrightarrow> indexes_ok self"
  by (auto simp: TOM_init_def indexes_ok_def split: sum.splits)

lemma write_back_Inr:
  "write_back root k v idx (h, p) = (Inr u, h', p') \<Longrightarrow>
   \<exists>a. getattr_chain h (Object root) (butlast (split_dot k)) = Inr (Object a) \<and>
       h' = h(a := (h a)(last (split_dot k) \<mapsto> Data v)) \<and>
       idx < length p \<and> p' = p[idx := v]"
  by (auto simp: write_back_def Let_def setattr_def split: sum.splits attr.splits if_splits)

lemma write_back_loop_Cons:
  assumes "write_back_loop root ((k, v, idx) # rest) (h, p) = (Inr u, h', p')"
  obtains a where "getattr_chain h (Object root) (butlast (split_dot k)) = Inr (Object a)"
    and "idx < length p"
    and "write_back root k v idx (h, p) =
      (Inr (), h(a := (h a)(last (split_dot k) \<mapsto> Data v)), p[idx := v])"
    and "write_back_loop root rest (h(a := (h a)(last (split_dot k) \<mapsto> Data v)), p[idx := v])
      = (Inr u, h', p')"
    and "written_slots root ((k, v, idx) # rest) (h, p) =
      (a, last (split_dot k)) #
        written_slots root rest (h(a := (h a)(last (split_dot k) \<mapsto> Data v)), p[idx := v])"
proof -
  obtain r1 h1 p1 where w: "write_back root k v idx (h, p) = (r1, h1, p1)"
    by (cases "write_back root k v idx (h, p)")
  then obtain u1 where r1: "r1 = Inr u1"
    using assms by (cases r1) auto
  from write_back_Inr[OF w[unfolded r1]] obtain a where
    a: "getattr_chain h (Object root) (butlast (split_dot k)) = Inr (Object a)"
      "h1 = h(a := (h a)(last (split_dot k) \<mapsto> Data v))" "idx < length p" "p1 = p[idx := v]"
    by blast
  show ?thesis
    using that[of a] a w r1 assms by simp
qed

lemma write_back_loop_frame:
  "write_back_loop root ts (h, p) = (Inr u, h', p') \<Longrightarrow>
   length (written_slots root ts (h, p)) = length ts \<and>
   length p' = length p \<and>
   (\<forall>a l. (a, l) \<notin> set (written_slots root ts (h, p)) \<longrightarrow> h' a l = h a l) \<and>
   (\<forall>idx. idx \<notin> set (map (\<lambda>t. snd (snd t)) ts) \<longrightarrow> p' ! idx = p ! idx) \<and>
   (\<forall>i < length ts. snd (snd (ts ! i)) < length p)"
proof (induction ts arbitrary: h p)
  case Nil
  then show ?case by simp
next
  case (Cons t ts)
  obtain k v idx where t: "t = (k, v, idx)" by (cases t)
  define l where "l = last (split_dot k)"
  define p1 where "p1 = p[idx := v]"
  define h1 where "h1 = (\<lambda>a. h(a := (h a)(last (split_dot k) \<mapsto> Data v)))"
  from Cons.prems[unfolded t] obtain a where
    a: "idx < length p"
      "write_back_loop root ts (h1 a, p1) = (Inr u, h', p')"
      "written_slots root ((k, v, idx) # ts) (h, p) = (a, l) # written_slots root ts (h1 a, p1)"
    unfolding h1_def p1_def l_def by (rule write_back_loop_Cons)
  note ih = Cons.IH[OF a(2)]
  have h1: "h1 a b m = h b m" if "(b, m) \<noteq> (a, l)" for b m
    using that by (auto simp: h1_def l_def)
  have p1len: "length p1 = length p"
    by (simp add: p1_def)
  have p1: "p1 ! j = p ! j" if "j \<noteq> idx" for j
    using that by (simp add: p1_def)
  have "length (written_slots root (t # ts) (h, p)) = length (t # ts)"
    using ih by (simp add: t a(3) del: written_slots.simps)
  moreover have "length p' = length p"
    using ih p1len by simp
  moreover have "\<forall>b m. (b, m) \<notin> set (written_slots root (t # ts) (h, p)) \<longrightarrow> h' b m = h b m"
  proof (intro allI impI)
    fix b m assume "(b, m) \<notin> set (written_slots root (t # ts) (h, p))"
    then have "(b, m) \<noteq> (a, l)" "(b, m) \<notin> set (written_slots root ts (h1 a, p1))"
      by (simp_all add: t a(3) del: written_slots.simps)
    then show "h' b m = h b m"
      using ih h1 by simp
  qed
  moreover have "\<forall>j. j \<notin> set (map (\<lambda>t. snd (snd t)) (t # ts)) \<longrightarrow> p' ! j = p ! j"
  proof (intro allI impI)
    fix j assume "j \<notin> set (map (\<lambda>t. snd (snd t)) (t # ts))"
    then have "j \<noteq> idx" "j \<notin> set (map (\<lambda>t. snd (snd t)) ts)"
      by (simp_all add: t)
    then show "p' ! j = p ! j"
      using ih p1 by simp
  qed
  moreover have "\<forall>i < length (t # ts). snd (snd ((t # ts) ! i)) < length p"
  proof (intro allI impI)
    fix i assume "i < length (t # ts)"
    then show "snd (snd ((t # ts) ! i)) < length p"
      using ih a(1) p1len by (cases i) (simp_all add: t)
  qed
  ultimately show ?case by blast
qed

lemma write_back_loop_final:
  "write_back_loop root ts (h, p) = (Inr u, h', p') \<Longrightarrow> i < length ts \<Longrightarrow>
   ((\<forall>j. i < j \<and> j < length ts \<longrightarrow>
        written_slots root ts (h, p) ! j \<noteq> written_slots root ts (h, p) ! i) \<longrightarrow>
      h' (fst (written_slots root ts (h, p) ! i)) (snd (written_slots root ts (h, p) ! i))
        = Some (Data (fst (snd (ts ! i))))) \<and>
   ((\<forall>j. i < j \<and> j < length ts \<longrightarrow> snd (snd (ts ! j)) \<noteq> snd (snd (ts ! i))) \<longrightarrow>
      p' ! (snd (snd (ts ! i))) = fst (snd (ts ! i)))"
proof (induction ts arbitrary: h p i)
  case Nil
  then show ?case by simp
next
  case (Cons t ts)
  obtain k v idx where t: "t = (k, v, idx)" by (cases t)
  define l where "l = last (split_dot k)"
  define p1 where "p1 = p[idx := v]"
  define h1 where "h1 = (\<lambda>a. h(a := (h a)(last (split_dot k) \<mapsto> Data v)))"
  from Cons.prems(1)[unfolded t] obtain a where
    a: "idx < length p"
      "write_back_loop root ts (h1 a, p1) = (Inr u, h', p')"
      "written_slots root ((k, v, idx) # ts) (h, p) = (a, l) # written_slots root ts (h1 a, p1)"
    unfolding h1_def p1_def l_def by (rule write_back_loop_Cons)
  note fr = write_back_loop_frame[OF a(2)]
  show ?case
  proof (cases i)
    case 0
    have heap: "h' a l = Some (Data v)"
      if "\<forall>j. 0 < j \<and> j < length (t # ts) \<longrightarrow>
        written_slots root (t # ts) (h, p) ! j \<noteq> written_slots root (t # ts) (h, p) ! 0"
    proof -
      have "(a, l) \<notin> set (written_slots root ts (h1 a, p1))"
      proof
        assume "(a, l) \<in> set (written_slots root ts (h1 a, p1))"
        then obtain j where "j < length ts" "written_slots root ts (h1 a, p1) ! j = (a, l)"
          using fr by (auto simp: in_set_conv_nth)
        then show False
          using that[rule_format, of "Suc j"] by (simp add: t a(3) del: written_slots.simps)
      qed
      then have "h' a l = h1 a a l" using fr by blast
      then show ?thesis by (simp add: h1_def l_def)
    qed
    have par: "p' ! idx = v"
      if "\<forall>j. 0 < j \<and> j < length (t # ts) \<longrightarrow> snd (snd ((t # ts) ! j)) \<noteq> snd (snd ((t # ts) ! 0))"
    proof -
      have "idx \<notin> set (map (\<lambda>t. snd (snd t)) ts)"
      proof
        assume "idx \<in> set (map (\<lambda>t. snd (snd t)) ts)"
        then obtain j where "j < length ts" "snd (snd (ts ! j)) = idx"
          by (auto simp: in_set_conv_nth)
        then show False
          using that[rule_format, of "Suc j"] by (simp add: t)
      qed
      then have "p' ! idx = p1 ! idx" using fr by simp
      then show ?thesis using a(1) by (simp add: p1_def)
    qed
    show ?thesis
      using heap par by (simp add: 0 t a(3) del: written_slots.simps)
  next
    case (Suc i')
    then have i': "i' < length ts" using Cons.prems(2) by simp
    note ih = Cons.IH[OF a(2) i']
    have s1: "\<forall>j. i' < j \<and> j < length ts \<longrightarrow>
        written_slots root ts (h1 a, p1) ! j \<noteq> written_slots root ts (h1 a, p1) ! i'"
      if "\<forall>j. i < j \<and> j < length (t # ts) \<longrightarrow>
        written_slots root (t # ts) (h, p) ! j \<noteq> written_slots root (t # ts) (h, p) ! i"
    proof (intro allI impI)
      fix j assume "i' < j \<and> j < length ts"
      then show "written_slots root ts (h1 a, p1) ! j \<noteq> written_slots root ts (h1 a, p1) ! i'"
        using that[rule_format, of "Suc j"] by (simp add: Suc t a(3) del: written_slots.simps)
    qed
    have s2: "\<forall>j. i' < j \<and> j < length ts \<longrightarrow> snd (snd (ts ! j)) \<noteq> snd (snd (ts ! i'))"
      if "\<forall>j. i < j \<and> j < length (t # ts) \<longrightarrow> snd (snd ((t # ts) ! j)) \<noteq> snd (snd ((t # ts) ! i))"
    proof (intro allI impI)
      fix j assume "i' < j \<and> j < length ts"
      then show "snd (snd (ts ! j)) \<noteq> snd (snd (ts ! i'))"
        using that[rule_format, of "Suc j"] by (simp add: Suc)
    qed
    show ?thesis
      using ih s1 s2 by (simp add: Suc t a(3) del: written_slots.simps)
  qed
qed

text \<open>The slot of a round is the object that the path leads to when the round starts.\<close>

lemma write_back_loop_slots:
  "write_back_loop root ts (h, p) = (Inr u, h', p') \<Longrightarrow> i < length ts \<Longrightarrow>
   \<exists>hi pi. write_back_loop root (take i ts) (h, p) = (Inr (), hi, pi) \<and>
     getattr_chain hi (Object root) (butlast (split_dot (fst (ts ! i)))) =
       Inr (Object (fst (written_slots root ts (h, p) ! i))) \<and>
     snd (written_slots root ts (h, p) ! i) = last (split_dot (fst (ts ! i)))"
proof (induction ts arbitrary: h p i)
  case Nil
  then show ?case by simp
next
  case (Cons t ts)
  obtain k v idx where t: "t = (k, v, idx)" by (cases t)
  define l where "l = last (split_dot k)"
  define p1 where "p1 = p[idx := v]"
  define h1 where "h1 = (\<lambda>a. h(a := (h a)(last (split_dot k) \<mapsto> Data v)))"
  from Cons.prems(1)[unfolded t] obtain a where
    a: "getattr_chain h (Object root) (butlast (split_dot k)) = Inr (Object a)"
      "write_back root k v idx (h, p) = (Inr (), h1 a, p1)"
      "write_back_loop root ts (h1 a, p1) = (Inr u, h', p')"
      "written_slots root ((k, v, idx) # ts) (h, p) = (a, l) # written_slots root ts (h1 a, p1)"
    unfolding h1_def p1_def l_def by (rule write_back_loop_Cons)
  show ?case
  proof (cases i)
    case 0
    then show ?thesis
      using a(1) by (simp add: t a(4) l_def del: written_slots.simps)
  next
    case (Suc i')
    then have i': "i' < length ts" using Cons.prems(2) by simp
    from Cons.IH[OF a(3) i'] obtain hi pi where
      "write_back_loop root (take i' ts) (h1 a, p1) = (Inr (), hi, pi)"
      "getattr_chain hi (Object root) (butlast (split_dot (fst (ts ! i')))) =
         Inr (Object (fst (written_slots root ts (h1 a, p1) ! i')))"
      "snd (written_slots root ts (h1 a, p1) ! i') = last (split_dot (fst (ts ! i')))"
      by blast
    then show ?thesis
      by (simp add: Suc t a(2) a(4) del: written_slots.simps)
  qed
qed


lemma TOM_call_forward_raises:
  "forward_fn (additional_param_values self @ args) kwargs s = (Inl e, t) \<Longrightarrow>
   fst (TOM_call E forward_fn args kwargs (self, h, s)) = Inl e"
  by (simp add: TOM_call_def Let_def)

lemma TOM_call_unfold:
  assumes "additional_return_names self \<noteq> []"
    and "forward_fn (additional_param_values self @ args) kwargs s = (Inr res, s1)"
  shows "TOM_call E forward_fn args kwargs (self, h, s) =
    (case iterate E res of
       Inl e \<Rightarrow> (Inl e, self, h, s1)
     | Inr [] \<Rightarrow> (Inl ValueError, self, h, s1)
     | Inr (r # additional_returns) \<Rightarrow>
         if length (additional_return_names self) \<noteq> length additional_returns then
           (Inl (AssertionError ''Number of expected additional return args does not match the actual number''),
            self, h, s1)
         else
           (case write_back_loop (model self)
                   (zip (additional_return_names self)
                      (zip additional_returns (additional_return_param_idxes self)))
                   (h, additional_param_values self) of
              (Inl e, h', params) \<Rightarrow> (Inl e, self\<lparr>additional_param_values := params\<rparr>, h', s1)
            | (Inr u, h', params) \<Rightarrow> (Inr r, self\<lparr>additional_param_values := params\<rparr>, h', s1)))"
  using assms by (simp add: TOM_call_def Let_def)

text \<open>
  Claim C9. Let the adapter declare extra return names, with its indexes as
  \<^verbatim>\<open>__init__\<close> computes them, and let the compiled function return \<open>res\<close>.

  When \<open>res\<close> unpacks into a first value and a number of further values other than
  the number of declared names, the call fails with the \<^verbatim>\<open>AssertionError\<close> and nothing
  is written. When \<open>res\<close> does not unpack into a first value and a rest, the call
  fails and nothing is written.

  When the numbers match and the call returns, it returns the first value, and for
  each name, in order: the object that the dotted path without its last part leads
  to had its attribute of the last part's name set to the extra value (so it holds
  that value at the end unless a later round wrote the same attribute of the same
  object), and the parameter slot at the name's index, which is the slot of the
  parameter of that name, was set to it (so it holds that value at the end unless a
  later name has the same index). The next call passes the updated values, followed
  by its arguments, to the compiled function.
\<close>

theorem module_adapter_checks_count_and_writes_back:
  assumes names: "additional_return_names self \<noteq> []"
    and ok: "indexes_ok self"
    and fwd: "forward_fn (additional_param_values self @ args) kwargs s = (Inr res, s1)"
    and run: "TOM_call E forward_fn args kwargs (self, h, s) = (outcome, self', h', s')"
  shows "(\<forall>r extras. iterate E res = Inr (r # extras) \<and>
            length extras \<noteq> length (additional_return_names self) \<longrightarrow>
          outcome = Inl (AssertionError
            ''Number of expected additional return args does not match the actual number'') \<and>
          self' = self \<and> h' = h \<and> s' = s1) \<and>
    ((\<forall>r extras. iterate E res \<noteq> Inr (r # extras)) \<longrightarrow>
          (\<exists>e. outcome = Inl e) \<and> self' = self \<and> h' = h \<and> s' = s1) \<and>
    (\<forall>r extras v. iterate E res = Inr (r # extras) \<and>
            length extras = length (additional_return_names self) \<and> outcome = Inr v \<longrightarrow>
          v = r \<and> s' = s1 \<and> indexes_ok self' \<and> model self' = model self \<and>
          additional_return_names self' = additional_return_names self \<and>
          length (additional_param_values self') = length (additional_param_values self) \<and>
          (\<forall>i < length (additional_return_names self).
             additional_return_param_idxes self ! i < length (additional_param_values self) \<and>
             additional_param_names self ! (additional_return_param_idxes self ! i) =
               additional_return_names self ! i \<and>
             snd (written_slots (model self)
                    (zip (additional_return_names self)
                       (zip extras (additional_return_param_idxes self)))
                    (h, additional_param_values self) ! i) =
               last (split_dot (additional_return_names self ! i)) \<and>
             (\<exists>hi pi.
                write_back_loop (model self)
                  (take i (zip (additional_return_names self)
                       (zip extras (additional_return_param_idxes self))))
                  (h, additional_param_values self) = (Inr (), hi, pi) \<and>
                getattr_chain hi (Object (model self))
                  (butlast (split_dot (additional_return_names self ! i))) =
                  Inr (Object (fst (written_slots (model self)
                    (zip (additional_return_names self)
                       (zip extras (additional_return_param_idxes self)))
                    (h, additional_param_values self) ! i)))) \<and>
             ((\<forall>j. i < j \<and> j < length (additional_return_names self) \<longrightarrow>
                  written_slots (model self)
                    (zip (additional_return_names self)
                       (zip extras (additional_return_param_idxes self)))
                    (h, additional_param_values self) ! j \<noteq>
                  written_slots (model self)
                    (zip (additional_return_names self)
                       (zip extras (additional_return_param_idxes self)))
                    (h, additional_param_values self) ! i) \<longrightarrow>
                h' (fst (written_slots (model self)
                    (zip (additional_return_names self)
                       (zip extras (additional_return_param_idxes self)))
                    (h, additional_param_values self) ! i))
                   (last (split_dot (additional_return_names self ! i))) =
                  Some (Data (extras ! i))) \<and>
             ((\<forall>j. i < j \<and> j < length (additional_return_names self) \<longrightarrow>
                  additional_return_param_idxes self ! j \<noteq>
                  additional_return_param_idxes self ! i) \<longrightarrow>
                additional_param_values self' ! (additional_return_param_idxes self ! i) =
                  extras ! i)) \<and>
          (\<forall>f2 args2 kwargs2 e t.
             f2 (additional_param_values self' @ args2) kwargs2 s' = (Inl e, t) \<longrightarrow>
             fst (TOM_call E f2 args2 kwargs2 (self', h', s')) = Inl e))"
proof -
  note u = TOM_call_unfold[where self = self and forward_fn = forward_fn and args = args
      and kwargs = kwargs and s = s and res = res and ?s1.0 = s1 and E = E and h = h,
      OF names fwd, unfolded run]
  have A: "outcome = Inl (AssertionError
            ''Number of expected additional return args does not match the actual number'') \<and>
          self' = self \<and> h' = h \<and> s' = s1"
    if "iterate E res = Inr (r # extras) \<and>
        length extras \<noteq> length (additional_return_names self)" for r extras
    using u that by auto
  have B: "(\<exists>e. outcome = Inl e) \<and> self' = self \<and> h' = h \<and> s' = s1"
    if "\<forall>r extras. iterate E res \<noteq> Inr (r # extras)"
  proof (cases "iterate E res")
    case (Inl e)
    then show ?thesis using u by simp
  next
    case (Inr xs)
    then have "xs = []" using that by (cases xs) auto
    then show ?thesis using u Inr by simp
  qed
  have C: "v = r \<and> s' = s1 \<and> indexes_ok self' \<and> model self' = model self \<and>
          additional_return_names self' = additional_return_names self \<and>
          length (additional_param_values self') = length (additional_param_values self) \<and>
          (\<forall>i < length (additional_return_names self).
             additional_return_param_idxes self ! i < length (additional_param_values self) \<and>
             additional_param_names self ! (additional_return_param_idxes self ! i) =
               additional_return_names self ! i \<and>
             snd (written_slots (model self)
                    (zip (additional_return_names self)
                       (zip extras (additional_return_param_idxes self)))
                    (h, additional_param_values self) ! i) =
               last (split_dot (additional_return_names self ! i)) \<and>
             (\<exists>hi pi.
                write_back_loop (model self)
                  (take i (zip (additional_return_names self)
                       (zip extras (additional_return_param_idxes self))))
                  (h, additional_param_values self) = (Inr (), hi, pi) \<and>
                getattr_chain hi (Object (model self))
                  (butlast (split_dot (additional_return_names self ! i))) =
                  Inr (Object (fst (written_slots (model self)
                    (zip (additional_return_names self)
                       (zip extras (additional_return_param_idxes self)))
                    (h, additional_param_values self) ! i)))) \<and>
             ((\<forall>j. i < j \<and> j < length (additional_return_names self) \<longrightarrow>
                  written_slots (model self)
                    (zip (additional_return_names self)
                       (zip extras (additional_return_param_idxes self)))
                    (h, additional_param_values self) ! j \<noteq>
                  written_slots (model self)
                    (zip (additional_return_names self)
                       (zip extras (additional_return_param_idxes self)))
                    (h, additional_param_values self) ! i) \<longrightarrow>
                h' (fst (written_slots (model self)
                    (zip (additional_return_names self)
                       (zip extras (additional_return_param_idxes self)))
                    (h, additional_param_values self) ! i))
                   (last (split_dot (additional_return_names self ! i))) =
                  Some (Data (extras ! i))) \<and>
             ((\<forall>j. i < j \<and> j < length (additional_return_names self) \<longrightarrow>
                  additional_return_param_idxes self ! j \<noteq>
                  additional_return_param_idxes self ! i) \<longrightarrow>
                additional_param_values self' ! (additional_return_param_idxes self ! i) =
                  extras ! i)) \<and>
          (\<forall>f2 args2 kwargs2 e t.
             f2 (additional_param_values self' @ args2) kwargs2 s' = (Inl e, t) \<longrightarrow>
             fst (TOM_call E f2 args2 kwargs2 (self', h', s')) = Inl e)"
    if a: "iterate E res = Inr (r # extras) \<and>
        length extras = length (additional_return_names self) \<and> outcome = Inr v"
    for r extras v
  proof -
    define root where "root = model self"
    define ts where "ts = zip (additional_return_names self)
        (zip extras (additional_return_param_idxes self))"
    define p where "p = additional_param_values self"
    define slots where "slots = written_slots root ts (h, p)"
    have li: "length (additional_return_param_idxes self) = length (additional_return_names self)"
      using ok by (rule indexes_ok_names(1))
    have lts: "length ts = length (additional_return_names self)"
      using a li by (simp add: ts_def)
    have nth: "ts ! i = (additional_return_names self ! i, extras ! i,
        additional_return_param_idxes self ! i)"
      if "i < length (additional_return_names self)" for i
      using that a li by (simp add: ts_def)
    obtain rl hl pl where loop: "write_back_loop root ts (h, p) = (rl, hl, pl)"
      by (cases "write_back_loop root ts (h, p)")
    have u': "(case rl of Inl e \<Rightarrow> (Inl e, self\<lparr>additional_param_values := pl\<rparr>, hl, s1)
        | Inr x \<Rightarrow> (Inr r, self\<lparr>additional_param_values := pl\<rparr>, hl, s1)) =
        (outcome, self', h', s')"
      using u a loop by (simp add: root_def ts_def p_def split: sum.splits)
    then obtain x where rl: "rl = Inr x"
      using a by (cases rl) auto
    have res: "v = r" "self' = self\<lparr>additional_param_values := pl\<rparr>" "h' = hl" "s' = s1"
      using u' rl a by auto
    note loop' = loop[unfolded rl]
    note fr = write_back_loop_frame[OF loop']
    have per: "additional_return_param_idxes self ! i < length p \<and>
        additional_param_names self ! (additional_return_param_idxes self ! i) =
          additional_return_names self ! i \<and>
        snd (slots ! i) = last (split_dot (additional_return_names self ! i)) \<and>
        (\<exists>hi pi. write_back_loop root (take i ts) (h, p) = (Inr (), hi, pi) \<and>
           getattr_chain hi (Object root)
             (butlast (split_dot (additional_return_names self ! i))) =
             Inr (Object (fst (slots ! i)))) \<and>
        ((\<forall>j. i < j \<and> j < length (additional_return_names self) \<longrightarrow> slots ! j \<noteq> slots ! i) \<longrightarrow>
           hl (fst (slots ! i)) (last (split_dot (additional_return_names self ! i))) =
             Some (Data (extras ! i))) \<and>
        ((\<forall>j. i < j \<and> j < length (additional_return_names self) \<longrightarrow>
             additional_return_param_idxes self ! j \<noteq> additional_return_param_idxes self ! i) \<longrightarrow>
           pl ! (additional_return_param_idxes self ! i) = extras ! i)"
      if i: "i < length (additional_return_names self)" for i
    proof -
      have its: "i < length ts" using i lts by simp
      have 1: "additional_return_param_idxes self ! i < length p"
        using fr its nth[OF i] by fastforce
      have 2: "additional_param_names self ! (additional_return_param_idxes self ! i) =
          additional_return_names self ! i"
        using indexes_ok_names(2)[OF ok i] by simp
      from write_back_loop_slots[OF loop' its] obtain hi pi where
        3: "write_back_loop root (take i ts) (h, p) = (Inr (), hi, pi)"
          "getattr_chain hi (Object root) (butlast (split_dot (fst (ts ! i)))) =
             Inr (Object (fst (slots ! i)))"
          "snd (slots ! i) = last (split_dot (fst (ts ! i)))"
        unfolding slots_def by blast
      note fin = write_back_loop_final[OF loop' its, folded slots_def]
      have 4: "hl (fst (slots ! i)) (last (split_dot (additional_return_names self ! i))) =
             Some (Data (extras ! i))"
        if "\<forall>j. i < j \<and> j < length (additional_return_names self) \<longrightarrow> slots ! j \<noteq> slots ! i"
        using fin[THEN conjunct1] that lts 3(3) nth[OF i] by simp
      have 5: "pl ! (additional_return_param_idxes self ! i) = extras ! i"
        if n: "\<forall>j. i < j \<and> j < length (additional_return_names self) \<longrightarrow>
             additional_return_param_idxes self ! j \<noteq> additional_return_param_idxes self ! i"
      proof -
        have "\<forall>j. i < j \<and> j < length ts \<longrightarrow> snd (snd (ts ! j)) \<noteq> snd (snd (ts ! i))"
        proof (intro allI impI)
          fix j assume j: "i < j \<and> j < length ts"
          then have "j < length (additional_return_names self)" using lts by simp
          then show "snd (snd (ts ! j)) \<noteq> snd (snd (ts ! i))"
            using n j nth[of j] nth[OF i] by simp
        qed
        then show ?thesis
          using fin[THEN conjunct2] nth[OF i] by simp
      qed
      show ?thesis
        using 1 2 3 4 5 nth[OF i] by auto
    qed
    have next_call: "fst (TOM_call E f2 args2 kwargs2 (self', h', s')) = Inl e"
      if "f2 (additional_param_values self' @ args2) kwargs2 s' = (Inl e, t)"
      for f2 :: "pyval list \<Rightarrow> kwargs \<Rightarrow> 'a \<Rightarrow> (exn + pyval) \<times> 'a" and args2 kwargs2 e t
      using that by (rule TOM_call_forward_raises)
    have ok': "indexes_ok self'"
      using ok by (simp add: res(2) indexes_ok_def)
    have "length (additional_param_values self') = length (additional_param_values self)"
      using fr by (simp add: res(2) p_def)
    moreover have "additional_param_values self' = pl"
      by (simp add: res(2))
    ultimately show ?thesis
      using res ok' per next_call
      unfolding root_def[symmetric] ts_def[symmetric] p_def[symmetric] slots_def[symmetric]
      by (simp add: res(2) root_def[symmetric])
  qed
  show ?thesis
    using A B C by blast
qed


theorem module_adapter_checks_count_and_writes_back_witness:
  "TOM_init 0 [''layer.weight'', ''bias''] [Hashable (PyInt 1), Hashable (PyInt 2)]
     [''layer.weight''] = Inr (demo_module [''layer.weight''] [0]) \<and>
   fst (TOM_call demo_env demo_forward [] []
     (demo_module [''layer.weight''] [0], demo_heap, ())) = Inr (Hashable (PyInt 10)) \<and>
   additional_param_values (fst (snd (TOM_call demo_env demo_forward [] []
     (demo_module [''layer.weight''] [0], demo_heap, ())))) ! 0 = Hashable (PyInt 11) \<and>
   fst (snd (snd (TOM_call demo_env demo_forward [] []
     (demo_module [''layer.weight''] [0], demo_heap, ())))) 1 ''weight''
     = Some (Data (Hashable (PyInt 11))) \<and>
   fst (TOM_call demo_env demo_forward [] []
     (demo_module [''layer.weight'', ''bias''] [0, 1], demo_heap, ())) =
     Inl (AssertionError
       ''Number of expected additional return args does not match the actual number'') \<and>
   fst (snd (snd (TOM_call demo_env demo_forward [] []
     (demo_module [''layer.weight'', ''bias''] [0, 1], demo_heap, ())))) = demo_heap"
proof -
  have sp: "split_dot ''layer.weight'' = [''layer'', ''weight'']" "split_dot ''bias'' = [''bias'']"
    by simp_all
  have pi: "param_index [''layer.weight'', ''bias''] ''layer.weight'' = Some 0"
    "param_index [''layer.weight'', ''bias''] ''bias'' = Some 1"
    by (simp_all add: param_index_def upt_rec)
  have init: "TOM_init 0 [''layer.weight'', ''bias''] [Hashable (PyInt 1), Hashable (PyInt 2)]
     [''layer.weight''] = Inr (demo_module [''layer.weight''] [0])"
    by (simp add: TOM_init_def demo_module_def pi)
  have ok1: "indexes_ok (demo_module [''layer.weight''] [0])"
    using init by (rule TOM_init_indexes_ok)
  have ok2: "indexes_ok (demo_module [''layer.weight'', ''bias''] [0, 1])"
    by (simp add: indexes_ok_def demo_module_def pi)
  have n1: "additional_return_names (demo_module [''layer.weight''] [0]) \<noteq> []"
    and n2: "additional_return_names (demo_module [''layer.weight'', ''bias''] [0, 1]) \<noteq> []"
    by (simp_all add: demo_module_def)
  have f: "demo_forward (additional_param_values m @ []) [] () =
      (Inr (PySequence PyTuple [Hashable (PyInt 10), Hashable (PyInt 11)]), ())" for m
    by (simp add: demo_forward_def)
  have it: "iterate demo_env (PySequence PyTuple [Hashable (PyInt 10), Hashable (PyInt 11)]) =
      Inr (Hashable (PyInt 10) # [Hashable (PyInt 11)])"
    by (simp add: iterate_def)
  have tup: "x = (fst x, fst (snd x), fst (snd (snd x)), snd (snd (snd x)))"
    for x :: "(exn + pyval) \<times> ThunderOptimizedModule \<times> heap \<times> unit"
    by (cases x) auto
  note t1 = module_adapter_checks_count_and_writes_back
      [where self = "demo_module [''layer.weight''] [0]" and forward_fn = demo_forward
        and args = "[]" and kwargs = "[]" and s = "()" and ?s1.0 = "()" and h = demo_heap
        and E = demo_env
        and res = "PySequence PyTuple [Hashable (PyInt 10), Hashable (PyInt 11)]",
       OF n1 ok1 f tup]
  note t2 = module_adapter_checks_count_and_writes_back
      [where self = "demo_module [''layer.weight'', ''bias''] [0, 1]"
        and forward_fn = demo_forward
        and args = "[]" and kwargs = "[]" and s = "()" and ?s1.0 = "()" and h = demo_heap
        and E = demo_env
        and res = "PySequence PyTuple [Hashable (PyInt 10), Hashable (PyInt 11)]",
       OF n2 ok2 f tup]
  have l1: "length [Hashable (PyInt 11)] =
      length (additional_return_names (demo_module [''layer.weight''] [0]))"
    and l2: "length [Hashable (PyInt 11)] \<noteq>
      length (additional_return_names (demo_module [''layer.weight'', ''bias''] [0, 1]))"
    by (simp_all add: demo_module_def)
  have ret: "fst (TOM_call demo_env demo_forward [] []
     (demo_module [''layer.weight''] [0], demo_heap, ())) = Inr (Hashable (PyInt 10))"
    by (simp add: TOM_call_def demo_forward_def iterate_def demo_module_def demo_heap_def
        write_back_def setattr_def sp Let_def)
  have slot: "written_slots (model (demo_module [''layer.weight''] [0]))
      (zip (additional_return_names (demo_module [''layer.weight''] [0]))
        (zip [Hashable (PyInt 11)] (additional_return_param_idxes (demo_module [''layer.weight''] [0]))))
      (demo_heap, additional_param_values (demo_module [''layer.weight''] [0])) = [(1, ''weight'')]"
    by (simp add: demo_module_def demo_heap_def sp)
  from t1[THEN conjunct2, THEN conjunct2, rule_format, OF conjI[OF it conjI[OF l1 ret]]]
  have c: "\<forall>i < length (additional_return_names (demo_module [''layer.weight''] [0])).
      ((\<forall>j. i < j \<and> j < length (additional_return_names (demo_module [''layer.weight''] [0])) \<longrightarrow>
          [(1::nat, ''weight'')] ! j \<noteq> [(1, ''weight'')] ! i) \<longrightarrow>
        fst (snd (snd (TOM_call demo_env demo_forward [] []
          (demo_module [''layer.weight''] [0], demo_heap, ()))))
          (fst ([(1::nat, ''weight'')] ! i))
          (last (split_dot (additional_return_names (demo_module [''layer.weight''] [0]) ! i))) =
          Some (Data ([Hashable (PyInt 11)] ! i))) \<and>
      ((\<forall>j. i < j \<and> j < length (additional_return_names (demo_module [''layer.weight''] [0])) \<longrightarrow>
          additional_return_param_idxes (demo_module [''layer.weight''] [0]) ! j \<noteq>
          additional_return_param_idxes (demo_module [''layer.weight''] [0]) ! i) \<longrightarrow>
        additional_param_values (fst (snd (TOM_call demo_env demo_forward [] []
          (demo_module [''layer.weight''] [0], demo_heap, ())))) !
          (additional_return_param_idxes (demo_module [''layer.weight''] [0]) ! i) =
          [Hashable (PyInt 11)] ! i)"
    unfolding slot by blast
  have w: "additional_param_values (fst (snd (TOM_call demo_env demo_forward [] []
       (demo_module [''layer.weight''] [0], demo_heap, ())))) ! 0 = Hashable (PyInt 11)"
    "fst (snd (snd (TOM_call demo_env demo_forward [] []
       (demo_module [''layer.weight''] [0], demo_heap, ())))) 1 ''weight''
       = Some (Data (Hashable (PyInt 11)))"
    using c[rule_format, of 0] by (auto simp: demo_module_def sp)
  from t2[THEN conjunct1, rule_format, OF conjI[OF it l2]]
  have m: "fst (TOM_call demo_env demo_forward [] []
       (demo_module [''layer.weight'', ''bias''] [0, 1], demo_heap, ())) =
     Inl (AssertionError
       ''Number of expected additional return args does not match the actual number'')"
    "fst (snd (snd (TOM_call demo_env demo_forward [] []
       (demo_module [''layer.weight'', ''bias''] [0, 1], demo_heap, ())))) = demo_heap"
    by simp_all
  show ?thesis
    using init ret w m by simp
qed


end
